theory Spec2Isabelle
  imports Main "HOL-Library.List_Lexorder"
begin

section \<open>Text primitives of the host language\<close>

text \<open>
  A Python \<open>str\<close> is a sequence of code points. The model uses \<open>string\<close>: each \<open>char\<close>
  stands for the code point of the same number, so the model covers every text whose code
  points are below 256. The character classes below are those of Python 3 on that range.
\<close>

definition is_digit :: "char \<Rightarrow> bool" where
  \<comment> \<open>the class \<open>\d\<close> of \<open>re\<close> on a \<open>str\<close> pattern: decimal digits\<close>
  "is_digit c = (let n = (of_char c :: nat) in 48 \<le> n \<and> n \<le> 57)"

definition is_word :: "char \<Rightarrow> bool" where
  \<comment> \<open>the class \<open>\w\<close> of \<open>re\<close> on a \<open>str\<close> pattern: alphanumeric code points and the underscore\<close>
  "is_word c = (let n = (of_char c :: nat) in
     (48 \<le> n \<and> n \<le> 57) \<or> (65 \<le> n \<and> n \<le> 90) \<or> n = 95 \<or> (97 \<le> n \<and> n \<le> 122) \<or>
     n = 170 \<or> n = 178 \<or> n = 179 \<or> n = 181 \<or> n = 185 \<or> n = 186 \<or>
     (188 \<le> n \<and> n \<le> 190) \<or> (192 \<le> n \<and> n \<le> 214) \<or> (216 \<le> n \<and> n \<le> 246) \<or>
     248 \<le> n)"

definition is_space :: "char \<Rightarrow> bool" where
  \<comment> \<open>\<open>str.isspace\<close>, the characters that \<open>str.strip()\<close> removes\<close>
  "is_space c = (let n = (of_char c :: nat) in
     (9 \<le> n \<and> n \<le> 13) \<or> (28 \<le> n \<and> n \<le> 32) \<or> n = 133 \<or> n = 160)"

definition is_linebreak :: "char \<Rightarrow> bool" where
  \<comment> \<open>the line boundaries of \<open>str.splitlines()\<close>\<close>
  "is_linebreak c = (let n = (of_char c :: nat) in
     (10 \<le> n \<and> n \<le> 13) \<or> (28 \<le> n \<and> n \<le> 30) \<or> n = 133)"

definition to_lower :: "char \<Rightarrow> char" where
  \<comment> \<open>\<open>str.lower()\<close> on one code point\<close>
  "to_lower c = (let n = (of_char c :: nat) in
     if 65 \<le> n \<and> n \<le> 90 then char_of (n + 32)
     else if 192 \<le> n \<and> n \<le> 222 \<and> n \<noteq> 215 then char_of (n + 32)
     else c)"

definition lower :: "string \<Rightarrow> string" where
  "lower s = map to_lower s"

definition strip :: "string \<Rightarrow> string" where
  \<comment> \<open>\<open>str.strip()\<close>: white space removed at both ends\<close>
  "strip s = rev (dropWhile is_space (rev (dropWhile is_space s)))"

definition startswith :: "string \<Rightarrow> string \<Rightarrow> bool" where
  "startswith s p = (take (length p) s = p)"

fun splitlines_from :: "string \<Rightarrow> string \<Rightarrow> string list" where
  \<comment> \<open>\<open>str.splitlines()\<close>; the first argument is the line read so far. A carriage return
      followed by a line feed is one boundary; text after the last boundary is a line
      only when it is not empty.\<close>
  "splitlines_from cur [] = (if cur = [] then [] else [cur])"
| "splitlines_from cur (c # r) =
     (if c = CHR 0x0D then
        (case r of
           [] \<Rightarrow> [cur]
         | d # r' \<Rightarrow> if d = CHR 0x0A then cur # splitlines_from [] r'
                     else cur # splitlines_from [] (d # r'))
      else if is_linebreak c then cur # splitlines_from [] r
      else splitlines_from (cur @ [c]) r)"

definition splitlines :: "string \<Rightarrow> string list" where
  "splitlines s = splitlines_from [] s"

definition split_once :: "char \<Rightarrow> string \<Rightarrow> string list" where
  \<comment> \<open>\<open>s.split(sep, 1)\<close> for a separator of one character\<close>
  "split_once sep s =
     (case dropWhile (\<lambda>c. c \<noteq> sep) s of
        [] \<Rightarrow> [s]
      | _ # r \<Rightarrow> [takeWhile (\<lambda>c. c \<noteq> sep) s, r])"

section \<open>The pattern search of \<open>extract_version\<close>\<close>

text \<open>
  \<open>re.search(r"\b(\d+\.\d+\.\d+)\b", url)\<close>. The pattern is a sequence of atoms: the
  word boundary \<open>\b\<close>, the greedy run \<open>\d+\<close> and a literal character. A cursor is a
  position in the text: the character before it (if any) and the text from it on. Matching
  an atom at a cursor gives the cursors where the match can end, in the order in which the
  backtracking matcher tries them; the group is not an atom, because it only records
  where the text between the two boundaries (both of width zero) begins and ends.
\<close>

datatype atom = WordBoundary | Digits | Lit char

type_synonym cursor = "char option \<times> string"

definition word_before :: "char option \<Rightarrow> bool" where
  "word_before p = (case p of None \<Rightarrow> False | Some c \<Rightarrow> is_word c)"

definition word_after :: "string \<Rightarrow> bool" where
  "word_after r = (case r of [] \<Rightarrow> False | c # _ \<Rightarrow> is_word c)"

definition boundary :: "char option \<Rightarrow> string \<Rightarrow> bool" where
  \<comment> \<open>\<open>\b\<close>: exactly one side of the position is a word character\<close>
  "boundary p r = (word_before p \<noteq> word_after r)"

fun digit_runs :: "char option \<Rightarrow> string \<Rightarrow> cursor list" where
  \<comment> \<open>\<open>\d+\<close>, greedy: the longest run first, then each shorter one\<close>
  "digit_runs p [] = []"
| "digit_runs p (c # r) = (if is_digit c then digit_runs (Some c) r @ [(Some c, r)] else [])"

fun atom_match :: "atom \<Rightarrow> cursor \<Rightarrow> cursor list" where
  "atom_match WordBoundary (p, r) = (if boundary p r then [(p, r)] else [])"
| "atom_match Digits (p, r) = digit_runs p r"
| "atom_match (Lit c) (p, []) = []"
| "atom_match (Lit c) (p, x # r) = (if x = c then [(Some x, r)] else [])"

fun seq_match :: "atom list \<Rightarrow> cursor \<Rightarrow> cursor list" where
  "seq_match [] k = [k]"
| "seq_match (a # as) k = concat (map (seq_match as) (atom_match a k))"

definition match_here :: "atom list \<Rightarrow> cursor \<Rightarrow> string option" where
  \<comment> \<open>the text matched at this start position: the first alternative that succeeds\<close>
  "match_here pat k =
     (case seq_match pat k of
        [] \<Rightarrow> None
      | (p', r') # _ \<Rightarrow> Some (take (length (snd k) - length r') (snd k)))"

fun re_search :: "atom list \<Rightarrow> char option \<Rightarrow> string \<Rightarrow> string option" where
  \<comment> \<open>\<open>re.search\<close>: the start positions are tried from left to right, the end of the
      text included\<close>
  "re_search pat p [] = match_here pat (p, [])"
| "re_search pat p (c # r) =
     (case match_here pat (p, c # r) of
        Some m \<Rightarrow> Some m
      | None \<Rightarrow> re_search pat (Some c) r)"

definition version_pattern :: "atom list" where
  "version_pattern =
     [WordBoundary, Digits, Lit CHR ''.'', Digits, Lit CHR ''.'', Digits, WordBoundary]"

definition extract_version :: "string \<Rightarrow> string" where
  \<comment> \<open>the same function in \<open>cursor_updater.py\<close> and in \<open>version_check.py\<close>\<close>
  "extract_version url =
     (case re_search version_pattern None url of
        Some m \<Rightarrow> m
      | None \<Rightarrow> ''Unknown'')"

section \<open>The installed version\<close>

datatype exn =
    PermissionError | FileNotFoundError | OSError | UnicodeDecodeError | IndexError | EOFError
  | ValueError | InvalidVersion

datatype desktop_file =
    StatRaises exn        \<comment> \<open>\<open>desktop_path.is_file()\<close> raises: it ignores a missing path only, so a
                              directory that may not be searched gives \<open>PermissionError\<close>\<close>
  | NotAFile              \<comment> \<open>\<open>desktop_path.is_file()\<close> is false\<close>
  | ReadRaises exn        \<comment> \<open>\<open>read_text()\<close> raises\<close>
  | ReadText string       \<comment> \<open>\<open>read_text()\<close> returns this text\<close>

definition version_key :: string where
  "version_key = ''X-AppImage-Version=''"

fun scan_lines :: "string list \<Rightarrow> exn + string option" where
  \<comment> \<open>the \<open>for\<close> loop: the first line that starts with the key decides\<close>
  "scan_lines [] = Inr None"
| "scan_lines (line # ls) =
     (if startswith line version_key then
        (case split_once CHR ''='' line of
           _ # v # _ \<Rightarrow> Inr (Some (strip v))
         | _ \<Rightarrow> Inl IndexError)
      else scan_lines ls)"

definition caught_by_reader :: "exn \<Rightarrow> bool" where
  \<comment> \<open>\<open>except (IOError, PermissionError)\<close>: \<open>IOError\<close> is \<open>OSError\<close>\<close>
  "caught_by_reader e = (e = PermissionError \<or> e = OSError)"

definition get_installed_version :: "desktop_file \<Rightarrow> exn + string option" where
  \<comment> \<open>the test \<open>is_file()\<close> stands before the \<open>try\<close>: what it raises is not caught\<close>
  "get_installed_version f =
     (case f of
        StatRaises e \<Rightarrow> Inl e
      | NotAFile \<Rightarrow> Inr None
      | ReadRaises e \<Rightarrow> if caught_by_reader e then Inr None else Inl e
      | ReadText t \<Rightarrow> scan_lines (splitlines t))"

section \<open>The comparison of versions\<close>


definition fallback :: "exn \<Rightarrow> string \<Rightarrow> string \<Rightarrow> bool \<Rightarrow> exn + bool" where
  \<comment> \<open>\<open>except version.InvalidVersion\<close>: the two texts are compared; any other exception
      leaves the comparison uncaught\<close>
  "fallback e i latest_version forced =
     (if e = InvalidVersion then Inr (i = latest_version \<and> \<not> forced) else Inl e)"

definition already_up_to_date ::
  "(string \<Rightarrow> exn + 'v::linorder) \<Rightarrow> string option \<Rightarrow> string \<Rightarrow> bool \<Rightarrow> exn + bool" where
  \<comment> \<open>step 3 of \<open>main\<close>: \<open>Inr True\<close> when the run returns with "Already up to date",
      \<open>Inl\<close> when an exception leaves the step. The installed text is parsed first.\<close>
  "already_up_to_date parse installed_version latest_version forced =
     (case installed_version of
        None \<Rightarrow> Inr False
      | Some i \<Rightarrow>
          if i \<noteq> [] \<and> latest_version \<noteq> ''Unknown'' then
            (case parse i of
               Inl e \<Rightarrow> fallback e i latest_version forced
             | Inr vi \<Rightarrow>
                 (case parse latest_version of
                    Inl e \<Rightarrow> fallback e i latest_version forced
                  | Inr vl \<Rightarrow> Inr (vi \<ge> vl \<and> \<not> forced)))
          else Inr False)"

definition update_needed ::
  "(string \<Rightarrow> exn + 'v::linorder) \<Rightarrow> string option \<Rightarrow> string \<Rightarrow> bool \<Rightarrow> bool" where
  \<comment> \<open>the comparison ends and does not find the installation up to date\<close>
  "update_needed parse installed_version latest_version forced =
     (already_up_to_date parse installed_version latest_version forced = Inr False)"

subsection \<open>A parser for plain release numbers\<close>

text \<open>
  An instance of the parameter for the examples: it reads dotted decimal numbers such as
  \<open>0.43.1\<close> and rejects everything else with \<open>InvalidVersion\<close>. As the library does for
  release segments, it converts each number (which raises \<open>ValueError\<close> beyond 4300
  digits), drops trailing zeros and compares the numbers from left to right.
\<close>

fun split_dots_from :: "string \<Rightarrow> string \<Rightarrow> string list" where
  "split_dots_from cur [] = [cur]"
| "split_dots_from cur (c # r) =
     (if c = CHR ''.'' then cur # split_dots_from [] r else split_dots_from (cur @ [c]) r)"

definition is_number :: "string \<Rightarrow> bool" where
  "is_number s = (s \<noteq> [] \<and> list_all is_digit s)"

definition number :: "string \<Rightarrow> nat" where
  "number s = foldl (\<lambda>n c. 10 * n + (of_char c - 48)) 0 s"

definition drop_trailing_zeros :: "nat list \<Rightarrow> nat list" where
  "drop_trailing_zeros ns = rev (dropWhile (\<lambda>n. n = 0) (rev ns))"

definition parse_release :: "string \<Rightarrow> exn + nat list" where
  "parse_release s =
     (let parts = split_dots_from [] s in
      if list_all is_number parts then
        (if list_ex (\<lambda>p. 4300 < length p) parts then Inl ValueError
         else Inr (drop_trailing_zeros (map number parts)))
      else Inl InvalidVersion)"

section \<open>The run of the updater\<close>

text \<open>
  The updater acts on the machine through commands, the network, the terminal and the file
  system. The model keeps what the properties below speak about: the tree at the install
  directory (\<open>None\<close> when the directory does not exist), whether the downloaded AppImage
  is on disk, and the sequence of actions the run has performed. What the outside world
  answers to each action is an input of the model, the record \<open>env\<close>. A command that
  fails leaves the tree it worked on in a state that the environment chooses.
  Interruption by a signal is modelled at the prompt only. The tests \<open>INSTALL_DIR.exists()\<close>
  ask for the directory that holds the desktop file: where they would raise, the test
  \<open>is_file()\<close> of the desktop file has raised before them. In the same way \<open>sudo -v\<close> can
  be started once \<open>which\<close> has found \<open>sudo\<close>.
\<close>

record args =
  force :: bool
  no_backup :: bool
  check :: bool
  verbose :: bool

datatype report =
    NotInstalled string            \<comment> \<open>"Cursor not installed. Latest version available: \<dots>"\<close>
  | LatestUnknown string           \<comment> \<open>"Currently installed: \<dots>. Cannot determine latest version."\<close>
  | UpdateAvailable string string  \<comment> \<open>"Update available: \<dots> (arrow) \<dots>"\<close>
  | UpgradeDone string             \<comment> \<open>"Cursor has been upgraded to version \<dots>", "Run `cursor` to launch"\<close>

datatype event =
    Which string        \<comment> \<open>\<open>which dep\<close>\<close>
  | SudoValidate        \<comment> \<open>\<open>sudo -v\<close>\<close>
  | ApiRequest          \<comment> \<open>the GET request to the download API\<close>
  | MakeBackupDir       \<comment> \<open>\<open>sudo mkdir -p\<close> of the backup directory\<close>
  | CopyInstall         \<comment> \<open>\<open>sudo cp -R\<close> of the install directory to the backup\<close>
  | Prompt              \<comment> \<open>"Backup failed. Continue anyway? (y/N): "\<close>
  | Download string     \<comment> \<open>the temporary file and the GET request of the AppImage at this URL\<close>
  | Extract             \<comment> \<open>the AppImage run with \<open>--appimage-extract\<close>\<close>
  | ChownSandbox        \<comment> \<open>\<open>sudo chown root:root\<close> of chrome-sandbox\<close>
  | ChmodSandbox        \<comment> \<open>\<open>sudo chmod 4755\<close> of chrome-sandbox\<close>
  | RemoveInstall       \<comment> \<open>\<open>sudo rm -rf\<close> of the install directory\<close>
  | MoveInstall         \<comment> \<open>\<open>sudo mv\<close> of squashfs-root to the install directory\<close>
  | RemoveSymlink       \<comment> \<open>\<open>sudo rm -f\<close> of the symlink\<close>
  | MakeSymlink         \<comment> \<open>\<open>sudo ln -sf\<close> of AppRun to the symlink\<close>
  | UpdateDesktopDb     \<comment> \<open>\<open>update-desktop-database\<close>\<close>
  | UnlinkArtifact      \<comment> \<open>\<open>appimage_path.unlink()\<close>\<close>
  | Print report        \<comment> \<open>\<open>print\<close> to the standard output\<close>

datatype response = Typed string | EndOfInput | Interrupt

datatype download_outcome =
    Downloaded         \<comment> \<open>the file is written and made executable\<close>
  | FailedNoFile       \<comment> \<open>the temporary file could not be created\<close>
  | FailedWithFile     \<comment> \<open>a later step raised: the file created with \<open>delete=False\<close> stays\<close>

datatype 't command_outcome =
    Done
  | Failed "'t option"  \<comment> \<open>the command failed and left this at the install directory\<close>

record 't env =
  which_raises :: "exn option"         \<comment> \<open>starting \<open>which\<close> itself raises, as
                                           \<open>FileNotFoundError\<close> when it is not installed\<close>
  has_tool :: "string \<Rightarrow> bool"        \<comment> \<open>\<open>which\<close> finds the tool\<close>
  sudo_ok :: bool
  desktop :: desktop_file              \<comment> \<open>the file \<open>/opt/cursor/cursor.desktop\<close>\<close>
  api :: "unit + string"               \<comment> \<open>the request fails, or the response holds this \<open>downloadUrl\<close>\<close>
  backup_dir_exists :: bool
  mkdir_ok :: bool
  copy_ok :: bool
  answer :: response                   \<comment> \<open>what \<open>input\<close> returns at the prompt\<close>
  download :: download_outcome
  tmpdir_ok :: bool                    \<comment> \<open>the temporary extraction directory can be created\<close>
  extract_ok :: bool                   \<comment> \<open>the extraction command exits with status 0\<close>
  squashfs_root :: "'t option"         \<comment> \<open>the tree \<open>squashfs-root\<close> after the extraction, if any\<close>
  sandbox_exists :: bool
  chown_ok :: bool
  chmod_ok :: bool
  rm_install :: "'t command_outcome"
  mv_install :: "'t command_outcome"
  tmpdir_cleanup_ok :: bool            \<comment> \<open>the temporary extraction directory can be removed\<close>
  symlink_present :: bool              \<comment> \<open>\<open>symlink.exists() or symlink.is_symlink()\<close>\<close>
  rm_symlink_ok :: bool
  ln_ok :: bool
  desktop_dir_exists :: bool
  update_db_ok :: bool
  unlink_ok :: bool

record 't world =
  install_dir :: "'t option"
  artifact :: bool
  events :: "event list"

datatype exit =
    UpToDate                 \<comment> \<open>"Already up to date", status 0\<close>
  | Checked                  \<comment> \<open>the report of \<open>--check\<close>, status 0\<close>
  | Upgraded                 \<comment> \<open>status 0\<close>
  | MissingDependencies      \<comment> \<open>\<open>sys.exit("Missing required system dependencies")\<close>\<close>
  | NoSudo                   \<comment> \<open>\<open>sys.exit("This script requires sudo privileges")\<close>\<close>
  | FetchFailed              \<comment> \<open>\<open>sys.exit("Failed to fetch latest version info: \<dots>")\<close>\<close>
  | UpdateAborted            \<comment> \<open>\<open>sys.exit("Update aborted")\<close>\<close>
  | DownloadFailed           \<comment> \<open>\<open>sys.exit("Download failed")\<close>\<close>
  | InstallationFailed       \<comment> \<open>\<open>sys.exit("Installation failed")\<close>\<close>
  | Cancelled                \<comment> \<open>\<open>KeyboardInterrupt\<close>: "Update cancelled", \<open>sys.exit(1)\<close>\<close>
  | Unhandled exn            \<comment> \<open>any other exception: "Unhandled exception", \<open>sys.exit(1)\<close>\<close>

definition exit_status :: "exit \<Rightarrow> nat" where
  \<comment> \<open>\<open>sys.exit\<close> with a message exits with status 1\<close>
  "exit_status x = (if x = UpToDate \<or> x = Checked \<or> x = Upgraded then 0 else 1)"

definition start :: "'t option \<Rightarrow> 't world" where
  \<comment> \<open>the world before the run: the temporary file does not exist yet\<close>
  "start d = \<lparr>install_dir = d, artifact = False, events = []\<rparr>"

definition emit :: "event \<Rightarrow> 't world \<Rightarrow> 't world" where
  "emit e w = w\<lparr>events := events w @ [e]\<rparr>"

definition dependencies :: "string list" where
  "dependencies = [''sudo'', ''update-desktop-database'']"

definition check_dependencies :: "'t env \<Rightarrow> 't world \<Rightarrow> (exn + bool) \<times> 't world" where
  \<comment> \<open>only \<open>CalledProcessError\<close> is caught (the tool is missing); when \<open>which\<close> cannot be
      started the exception leaves the function at the first tool\<close>
  "check_dependencies env w =
     (case which_raises env of
        Some e \<Rightarrow> (Inl e, w)
      | None \<Rightarrow>
          (let missing = filter (\<lambda>dep. \<not> has_tool env dep) dependencies
           in (Inr (missing = []), w\<lparr>events := events w @ map Which dependencies\<rparr>)))"

definition fetch_latest_info :: "'t env \<Rightarrow> 't world \<Rightarrow> (unit + string \<times> string) \<times> 't world" where
  "fetch_latest_info env w =
     (case api env of
        Inl e \<Rightarrow> (Inl e, emit ApiRequest w)
      | Inr download_url \<Rightarrow> (Inr (download_url, extract_version download_url), emit ApiRequest w))"

definition backup_existing_install :: "'t env \<Rightarrow> 't world \<Rightarrow> bool \<times> 't world" where
  "backup_existing_install env w =
     (if install_dir w = None then (True, w)
      else if \<not> backup_dir_exists env \<and> \<not> mkdir_ok env then (False, emit MakeBackupDir w)
      else
        (let w1 = (if backup_dir_exists env then w else emit MakeBackupDir w)
         in (copy_ok env, emit CopyInstall w1)))"

definition download_appimage :: "'t env \<Rightarrow> string \<Rightarrow> 't world \<Rightarrow> bool \<times> 't world" where
  \<comment> \<open>the result is true when a path is returned, false when \<open>None\<close> is\<close>
  "download_appimage env url w =
     (case download env of
        Downloaded \<Rightarrow> (True, (emit (Download url) w)\<lparr>artifact := True\<rparr>)
      | FailedNoFile \<Rightarrow> (False, emit (Download url) w)
      | FailedWithFile \<Rightarrow> (False, (emit (Download url) w)\<lparr>artifact := True\<rparr>))"

definition fix_sandbox :: "'t env \<Rightarrow> 't world \<Rightarrow> bool \<times> 't world" where
  \<comment> \<open>the chrome-sandbox permissions; false when a command raises\<close>
  "fix_sandbox env w =
     (if sandbox_exists env then
        (if \<not> chown_ok env then (False, emit ChownSandbox w)
         else (chmod_ok env, emit ChmodSandbox (emit ChownSandbox w)))
      else (True, w))"

definition remove_old :: "'t env \<Rightarrow> 't world \<Rightarrow> bool \<times> 't world" where
  "remove_old env w =
     (if install_dir w \<noteq> None then
        (case rm_install env of
           Done \<Rightarrow> (True, (emit RemoveInstall w)\<lparr>install_dir := None\<rparr>)
         | Failed rest \<Rightarrow> (False, (emit RemoveInstall w)\<lparr>install_dir := rest\<rparr>))
      else (True, w))"

definition move_new :: "'t env \<Rightarrow> 't \<Rightarrow> 't world \<Rightarrow> bool \<times> 't world" where
  "move_new env payload w =
     (case mv_install env of
        Done \<Rightarrow> (True, (emit MoveInstall w)\<lparr>install_dir := Some payload\<rparr>)
      | Failed rest \<Rightarrow> (False, (emit MoveInstall w)\<lparr>install_dir := rest\<rparr>))"

definition extract_and_install :: "'t env \<Rightarrow> 't world \<Rightarrow> bool \<times> 't world" where
  \<comment> \<open>every exception is caught and gives \<open>False\<close>, also one raised when the temporary
      directory is removed on the way out\<close>
  "extract_and_install env w =
     (if \<not> tmpdir_ok env then (False, w)
      else
        (let (ok, w') =
           (let w1 = emit Extract w in
            if \<not> extract_ok env then (False, w1)
            else
              (case squashfs_root env of
                 None \<Rightarrow> (False, w1)
               | Some payload \<Rightarrow>
                   (let (sandbox_done, w2) = fix_sandbox env w1 in
                    if \<not> sandbox_done then (False, w2)
                    else
                      (let (removed, w3) = remove_old env w2 in
                       if \<not> removed then (False, w3)
                       else move_new env payload w3))))
         in (ok \<and> tmpdir_cleanup_ok env, w')))"

definition update_symlinks_and_db :: "'t env \<Rightarrow> 't world \<Rightarrow> bool \<times> 't world" where
  "update_symlinks_and_db env w =
     (if symlink_present env \<and> \<not> rm_symlink_ok env then (False, emit RemoveSymlink w)
      else
        (let w1 = (if symlink_present env then emit RemoveSymlink w else w);
             w2 = emit MakeSymlink w1
         in if \<not> ln_ok env then (False, w2)
            else if desktop_dir_exists env then (update_db_ok env, emit UpdateDesktopDb w2)
            else (True, w2)))"

definition cleanup :: "'t env \<Rightarrow> 't world \<Rightarrow> 't world" where
  \<comment> \<open>step 8: a failure of \<open>unlink\<close> is logged only\<close>
  "cleanup env w =
     (if unlink_ok env then (emit UnlinkArtifact w)\<lparr>artifact := False\<rparr>
      else emit UnlinkArtifact w)"

definition check_report :: "string option \<Rightarrow> string \<Rightarrow> report" where
  \<comment> \<open>the three branches under \<open>if args.check\<close>\<close>
  "check_report installed_version latest_version =
     (case installed_version of
        None \<Rightarrow> NotInstalled latest_version
      | Some i \<Rightarrow>
          if i = [] then NotInstalled latest_version
          else if latest_version = ''Unknown'' then LatestUnknown i
          else UpdateAvailable i latest_version)"

definition confirmed :: "string \<Rightarrow> bool" where
  \<comment> \<open>\<open>input(\<dots>).lower() != 'y'\<close> is false\<close>
  "confirmed s = (lower s = ''y'')"

definition backup_step :: "args \<Rightarrow> 't env \<Rightarrow> 't world \<Rightarrow> exit option \<times> 't world" where
  \<comment> \<open>step 4 of \<open>main\<close>; \<open>Some\<close> when the run ends here\<close>
  "backup_step a env w =
     (if \<not> no_backup a \<and> install_dir w \<noteq> None then
        (let (saved, w1) = backup_existing_install env w in
         if saved then (None, w1)
         else
           (case answer env of
              Typed s \<Rightarrow> if confirmed s then (None, emit Prompt w1)
                         else (Some UpdateAborted, emit Prompt w1)
            | EndOfInput \<Rightarrow> (Some (Unhandled EOFError), emit Prompt w1)
            | Interrupt \<Rightarrow> (Some Cancelled, emit Prompt w1)))
      else (None, w))"

definition install_steps :: "'t env \<Rightarrow> string \<Rightarrow> string \<Rightarrow> 't world \<Rightarrow> exit \<times> 't world" where
  \<comment> \<open>steps 5 to 8 of \<open>main\<close>\<close>
  "install_steps env download_url latest_version w =
     (let (appimage_path, w1) = download_appimage env download_url w in
      if \<not> appimage_path then (DownloadFailed, w1)
      else
        (let (installed, w2) = extract_and_install env w1 in
         if \<not> installed then (InstallationFailed, w2)
         else
           (let (linked, w3) = update_symlinks_and_db env w2;
                w4 = cleanup env w3
            in (Upgraded, emit (Print (UpgradeDone latest_version)) w4))))"

definition main ::
  "(string \<Rightarrow> exn + 'v::linorder) \<Rightarrow> args \<Rightarrow> 't env \<Rightarrow> 't world \<Rightarrow> exit \<times> 't world" where
  \<comment> \<open>an exception that nothing catches ends the run in the handler at the bottom of the
      script, with status 1\<close>
  "main parse a env w =
     (case check_dependencies env w of
        (Inl e, w1) \<Rightarrow> (Unhandled e, w1)
      | (Inr deps, w1) \<Rightarrow>
          if \<not> deps then (MissingDependencies, w1)
          else
            (let w2 = emit SudoValidate w1 in
             if \<not> sudo_ok env then (NoSudo, w2)
             else
               (case get_installed_version (desktop env) of
                  Inl e \<Rightarrow> (Unhandled e, w2)
                | Inr installed_version \<Rightarrow>
                    (case fetch_latest_info env w2 of
                       (Inl e, w3) \<Rightarrow> (FetchFailed, w3)
                     | (Inr (download_url, latest_version), w3) \<Rightarrow>
                         (case already_up_to_date parse installed_version latest_version
                                 (force a) of
                            Inl e \<Rightarrow> (Unhandled e, w3)
                          | Inr up_to_date \<Rightarrow>
                              if up_to_date then (UpToDate, w3)
                              else if check a
                              then (Checked,
                                emit (Print (check_report installed_version latest_version)) w3)
                              else
                                (case backup_step a env w3 of
                                   (Some x, w4) \<Rightarrow> (x, w4)
                                 | (None, w4) \<Rightarrow>
                                     install_steps env download_url latest_version w4))))))"

section \<open>Notions used in the statements\<close>

definition printed :: "event list \<Rightarrow> report list" where
  \<comment> \<open>what a run has printed, in order\<close>
  "printed es = concat (map (\<lambda>e. case e of Print r \<Rightarrow> [r] | _ \<Rightarrow> []) es)"

definition prelude_events :: "event list" where
  \<comment> \<open>the actions of a run up to the comparison of versions\<close>
  "prelude_events = map Which dependencies @ [SudoValidate, ApiRequest]"

definition after_prelude :: "'t world \<Rightarrow> 't world" where
  "after_prelude w = w\<lparr>events := events w @ prelude_events\<rparr>"

subsection \<open>Example inputs\<close>

definition example_url :: string where
  "example_url = ''https://downloads.cursor.com/linux/x64/Cursor-0.43.1-x86_64.AppImage''"

definition same_version_url :: string where
  "same_version_url = ''https://downloads.cursor.com/linux/x64/Cursor-0.42.0-x86_64.AppImage''"


definition long_version :: string where
  \<comment> \<open>a version whose second number has 4301 digits\<close>
  "long_version = ''0.'' @ replicate 4301 CHR ''1''"

definition long_desktop :: desktop_file where
  "long_desktop = ReadText (''X-AppImage-Version='' @ long_version)"

definition example_desktop :: desktop_file where
  "example_desktop =
     ReadText (''[Desktop Entry]'' @ [CHR 0x0A] @ ''Name=Cursor'' @ [CHR 0x0A] @
               ''X-AppImage-Version=0.42.0'' @ [CHR 0x0A])"

definition example_env :: "nat env" where
  \<comment> \<open>version 0.42.0 is installed (the tree 42), 0.43.1 is offered (the tree 43), and
      every action succeeds; the user would answer "n"\<close>
  "example_env =
     \<lparr>which_raises = None, has_tool = (\<lambda>dep. True), sudo_ok = True,
      desktop = example_desktop,
      api = Inr example_url, backup_dir_exists = True, mkdir_ok = True, copy_ok = True,
      answer = Typed ''n'', download = Downloaded, tmpdir_ok = True, extract_ok = True,
      squashfs_root = Some 43, sandbox_exists = True, chown_ok = True, chmod_ok = True,
      rm_install = Done, mv_install = Done, tmpdir_cleanup_ok = True, symlink_present = True,
      rm_symlink_ok = True, ln_ok = True, desktop_dir_exists = True, update_db_ok = True,
      unlink_ok = True\<rparr>"

definition example_args :: args where
  "example_args = \<lparr>force = False, no_backup = False, check = False, verbose = False\<rparr>"

subsection \<open>Occurrences of a version in a text\<close>

text \<open>
  The declarative reading of the pattern: a dotted triple is three non-empty runs of
  digits separated by single dots; an occurrence of a word \<open>w\<close> in a text, between \<open>pre\<close>
  and \<open>post\<close>, is word-bounded when there is a word boundary on each side of it. The
  first argument is the character before the text, if any.
\<close>

definition digits :: "string \<Rightarrow> bool" where
  "digits w = (w \<noteq> [] \<and> list_all is_digit w)"

definition dotted_triple :: "string \<Rightarrow> bool" where
  "dotted_triple w =
     (\<exists>a b c. digits a \<and> digits b \<and> digits c \<and> w = a @ CHR ''.'' # b @ CHR ''.'' # c)"

definition char_before :: "char option \<Rightarrow> string \<Rightarrow> char option" where
  "char_before p pre = (if pre = [] then p else Some (last pre))"

definition word_bounded :: "char option \<Rightarrow> string \<Rightarrow> string \<Rightarrow> string \<Rightarrow> bool" where
  "word_bounded p pre w post =
     (boundary (char_before p pre) (w @ post) \<and> boundary (char_before p (pre @ w)) post)"

definition version_at :: "char option \<Rightarrow> string \<Rightarrow> string \<Rightarrow> string \<Rightarrow> string \<Rightarrow> bool" where
  "version_at p text pre w post =
     (text = pre @ w @ post \<and> dotted_triple w \<and> word_bounded p pre w post)"

definition unbounded_url :: string where
  "unbounded_url = ''https://example.com/v1.2.3/cursor.AppImage''"

section \<open>Evaluation of the examples\<close>

lemma emit_simps [simp]:
  "install_dir (emit e w) = install_dir w" "artifact (emit e w) = artifact w"
  "events (emit e w) = events w @ [e]"
  by (simp_all add: emit_def)

lemma start_simps [simp]:
  "install_dir (start d) = d" "artifact (start d) = False" "events (start d) = []"
  by (simp_all add: start_def)

lemma after_prelude_simps [simp]:
  "install_dir (after_prelude w) = install_dir w" "artifact (after_prelude w) = artifact w"
  "events (after_prelude w) = events w @ prelude_events"
  by (simp_all add: after_prelude_def)

lemmas text_defs = is_digit_def is_word_def is_space_def is_linebreak_def to_lower_def lower_def
  strip_def startswith_def splitlines_def split_once_def

lemmas search_defs = extract_version_def version_pattern_def match_here_def boundary_def
  word_before_def word_after_def

lemmas parse_defs = parse_release_def is_number_def number_def drop_trailing_zeros_def Let_def

lemmas run_defs = main_def check_dependencies_def dependencies_def fetch_latest_info_def
  backup_step_def backup_existing_install_def install_steps_def download_appimage_def
  extract_and_install_def fix_sandbox_def remove_old_def move_new_def
  update_symlinks_and_db_def cleanup_def start_def confirmed_def

lemma example_latest: "extract_version example_url = ''0.43.1''"
  by (simp add: example_url_def search_defs text_defs)

lemma same_version_latest: "extract_version same_version_url = ''0.42.0''"
  by (simp add: same_version_url_def search_defs text_defs)

lemma example_installed: "get_installed_version example_desktop = Inr (Some ''0.42.0'')"
  by (simp add: example_desktop_def get_installed_version_def version_key_def text_defs)

lemma example_versions:
  "parse_release ''0.42.0'' = Inr [0, 42]" "parse_release ''0.43.1'' = Inr [0, 43, 1]"
  by (simp_all add: parse_defs text_defs)

lemmas example_defs = example_env_def example_args_def example_latest example_installed
  example_versions same_version_latest already_up_to_date_def fallback_def emit_def
  check_report_def

lemma example_run:
  "main parse_release example_args example_env (start (Some 42)) =
     (Upgraded, \<lparr>install_dir = Some 43, artifact = False,
        events = [Which ''sudo'', Which ''update-desktop-database'', SudoValidate, ApiRequest,
          CopyInstall, Download example_url, Extract, ChownSandbox, ChmodSandbox, RemoveInstall,
          MoveInstall, RemoveSymlink, MakeSymlink, UpdateDesktopDb, UnlinkArtifact,
          Print (UpgradeDone ''0.43.1'')]\<rparr>)"
  by (simp add: run_defs example_defs)

lemma no_payload_run:
  "main parse_release example_args (example_env\<lparr>squashfs_root := None\<rparr>) (start (Some 42)) =
     (InstallationFailed, \<lparr>install_dir = Some 42, artifact = True,
        events = [Which ''sudo'', Which ''update-desktop-database'', SudoValidate, ApiRequest,
          CopyInstall, Download example_url, Extract]\<rparr>)"
  by (simp add: run_defs example_defs)

lemma declined_run:
  "main parse_release example_args (example_env\<lparr>copy_ok := False\<rparr>) (start (Some 42)) =
     (UpdateAborted, \<lparr>install_dir = Some 42, artifact = False,
        events = [Which ''sudo'', Which ''update-desktop-database'', SudoValidate, ApiRequest,
          CopyInstall, Prompt]\<rparr>)"
  by (simp add: run_defs example_defs text_defs)

lemma check_run:
  "main parse_release (example_args\<lparr>check := True\<rparr>) example_env (start (Some 42)) =
     (Checked, \<lparr>install_dir = Some 42, artifact = False,
        events = [Which ''sudo'', Which ''update-desktop-database'', SudoValidate, ApiRequest,
          Print (UpdateAvailable ''0.42.0'' ''0.43.1'')]\<rparr>)"
  by (simp add: run_defs example_defs)

section \<open>The actions of each step\<close>

lemma printed_simps [simp]:
  "printed [] = []" "printed (es @ fs) = printed es @ printed fs"
  "printed (Print r # es) = r # printed es"
  by (simp_all add: printed_def)

lemma prelude_events_harmless:
  "set prelude_events = {Which ''sudo'', Which ''update-desktop-database'', SudoValidate, ApiRequest}"
  by (auto simp: prelude_events_def dependencies_def)

lemma printed_prelude [simp]: "printed prelude_events = []"
  by (simp add: printed_def prelude_events_def dependencies_def)


lemma fix_sandbox_events:
  "fix_sandbox env w = (r, w') \<Longrightarrow>
     install_dir w' = install_dir w \<and> artifact w' = artifact w \<and>
     (\<exists>es. events w' = events w @ es \<and> set es \<subseteq> {ChownSandbox, ChmodSandbox})"
  by (auto simp: fix_sandbox_def split: if_splits)

lemma remove_old_events:
  "remove_old env w = (r, w') \<Longrightarrow>
     artifact w' = artifact w \<and>
     (\<exists>es. events w' = events w @ es \<and> set es \<subseteq> {RemoveInstall})"
  by (auto simp: remove_old_def split: if_splits command_outcome.splits)

lemma move_new_events:
  "move_new env p w = (r, w') \<Longrightarrow>
     artifact w' = artifact w \<and>
     (\<exists>es. events w' = events w @ es \<and> set es \<subseteq> {MoveInstall})"
  by (auto simp: move_new_def split: command_outcome.splits)

lemma extract_and_install_events:
  assumes "extract_and_install env w = (r, w')"
  shows "artifact w' = artifact w \<and>
     (\<exists>es. events w' = events w @ es \<and>
        set es \<subseteq> {Extract, ChownSandbox, ChmodSandbox, RemoveInstall, MoveInstall})"
  using assms
  apply (simp add: extract_and_install_def Let_def split: if_splits option.splits prod.splits)
  apply (auto dest!: fix_sandbox_events remove_old_events move_new_events)
  done

lemma update_symlinks_and_db_events:
  "update_symlinks_and_db env w = (r, w') \<Longrightarrow>
     install_dir w' = install_dir w \<and> artifact w' = artifact w \<and>
     (\<exists>es. events w' = events w @ es \<and> set es \<subseteq> {RemoveSymlink, MakeSymlink, UpdateDesktopDb})"
  by (auto simp: update_symlinks_and_db_def Let_def split: if_splits)

lemma install_steps_events:
  assumes "install_steps env u l w = (x, w')"
  shows "\<exists>es. events w' = events w @ es \<and>
        set es \<subseteq> {Download u, Extract, ChownSandbox, ChmodSandbox, RemoveInstall, MoveInstall,
          RemoveSymlink, MakeSymlink, UpdateDesktopDb, UnlinkArtifact, Print (UpgradeDone l)}"
  using assms
  apply (simp add: install_steps_def Let_def download_appimage_def cleanup_def
       split: if_splits prod.splits download_outcome.splits)
  apply (auto dest!: extract_and_install_events update_symlinks_and_db_events)
  done

lemma install_steps_exits:
  assumes "install_steps env u l w = (x, w')"
  shows "x = DownloadFailed \<and> install_dir w' = install_dir w \<and> events w' = events w @ [Download u] \<or>
         x = InstallationFailed \<or> x = Upgraded"
  using assms
  by (auto simp: install_steps_def Let_def download_appimage_def
       split: if_splits prod.splits download_outcome.splits)

lemma extract_and_install_no_payload:
  assumes "\<not> extract_ok env \<or> squashfs_root env = None"
  shows "\<not> fst (extract_and_install env w) \<and>
         install_dir (snd (extract_and_install env w)) = install_dir w \<and>
         (events (snd (extract_and_install env w)) = events w \<or>
          events (snd (extract_and_install env w)) = events w @ [Extract])"
  using assms by (auto simp: extract_and_install_def Let_def)

lemma install_steps_no_payload:
  assumes "install_steps env u l w = (x, w')"
      and "\<not> extract_ok env \<or> squashfs_root env = None"
  shows "install_dir w' = install_dir w \<and>
         (x = DownloadFailed \<and> events w' = events w @ [Download u] \<or>
          x = InstallationFailed \<and>
            (events w' = events w @ [Download u] \<or> events w' = events w @ [Download u, Extract]))"
proof -
  have "\<And>w1. \<not> fst (extract_and_install env w1)"
    and "\<And>w1. install_dir (snd (extract_and_install env w1)) = install_dir w1"
    and "\<And>w1. events (snd (extract_and_install env w1)) = events w1 \<or>
          events (snd (extract_and_install env w1)) = events w1 @ [Extract]"
    using extract_and_install_no_payload [OF assms(2)] by blast+
  note f = this
  show ?thesis
    using assms(1) f(1) [of "(emit (Download u) w)\<lparr>artifact := True\<rparr>"]
      f(2) [of "(emit (Download u) w)\<lparr>artifact := True\<rparr>"]
      f(3) [of "(emit (Download u) w)\<lparr>artifact := True\<rparr>"]
    by (auto simp: install_steps_def Let_def download_appimage_def
       split: if_splits prod.splits download_outcome.splits)
qed

lemma backup_step_events:
  assumes "backup_step a env w = (r, w')"
  shows "install_dir w' = install_dir w \<and> artifact w' = artifact w \<and>
     (\<exists>es. events w' = events w @ es \<and> set es \<subseteq> {MakeBackupDir, CopyInstall, Prompt} \<and>
        (Prompt \<in> set es \<longrightarrow> \<not> fst (backup_existing_install env w) \<and>
            (\<forall>s. answer env = Typed s \<and> \<not> confirmed s \<longrightarrow> r = Some UpdateAborted)) \<and>
        (r = Some UpdateAborted \<longrightarrow> Prompt \<in> set es))"
  using assms
  by (auto simp: backup_step_def backup_existing_install_def Let_def
      split: if_splits response.splits prod.splits)

lemma main_cases:
  assumes "main parse a env w = (x, w')"
  shows
    "((x = MissingDependencies \<or> x = NoSudo \<or> x = FetchFailed \<or> x = UpToDate \<or>
        (\<exists>e. x = Unhandled e \<and>
           (which_raises env = Some e \<or> get_installed_version (desktop env) = Inl e \<or>
            (\<exists>i url. get_installed_version (desktop env) = Inr i \<and> api env = Inr url \<and>
               already_up_to_date parse i (extract_version url) (force a) = Inl e)))) \<and>
      install_dir w' = install_dir w \<and> artifact w' = artifact w \<and>
      (\<exists>es. events w' = events w @ es \<and> set es \<subseteq> set prelude_events)) \<or>
     (\<exists>i url. get_installed_version (desktop env) = Inr i \<and> api env = Inr url \<and>
        update_needed parse i (extract_version url) (force a) \<and>
        (if check a
         then x = Checked \<and>
              w' = emit (Print (check_report i (extract_version url))) (after_prelude w)
         else (\<exists>r w4. backup_step a env (after_prelude w) = (r, w4) \<and>
                (case r of
                   Some x0 \<Rightarrow> x = x0 \<and> w' = w4
                 | None \<Rightarrow> install_steps env url (extract_version url) w4 = (x, w')))))"
proof -
  have w3: "emit ApiRequest (emit SudoValidate (w\<lparr>events := events w @ map Which dependencies\<rparr>))
      = after_prelude w"
    by (simp add: emit_def after_prelude_def prelude_events_def)
  show ?thesis
    using assms
    by (auto simp: main_def Let_def check_dependencies_def fetch_latest_info_def w3
        prelude_events_def update_needed_def
        split: if_splits sum.splits prod.splits option.splits)
qed

lemma main_elim:
  assumes "main parse a env w = (x, w')"
  obtains
    (early) es where "x = MissingDependencies \<or> x = NoSudo \<or> x = FetchFailed \<or> x = UpToDate \<or>
        (\<exists>e. x = Unhandled e \<and>
           (which_raises env = Some e \<or> get_installed_version (desktop env) = Inl e \<or>
            (\<exists>i url. get_installed_version (desktop env) = Inr i \<and> api env = Inr url \<and>
               already_up_to_date parse i (extract_version url) (force a) = Inl e)))"
      "install_dir w' = install_dir w" "artifact w' = artifact w"
      "events w' = events w @ es" "set es \<subseteq> set prelude_events"
  | (checked) i url where "x = Checked" "check a"
      "get_installed_version (desktop env) = Inr i" "api env = Inr url"
      "update_needed parse i (extract_version url) (force a)"
      "w' = emit (Print (check_report i (extract_version url))) (after_prelude w)"
  | (aborted) i url where "\<not> check a"
      "get_installed_version (desktop env) = Inr i" "api env = Inr url"
      "update_needed parse i (extract_version url) (force a)"
      "backup_step a env (after_prelude w) = (Some x, w')"
  | (update) i url w4 where "\<not> check a"
      "get_installed_version (desktop env) = Inr i" "api env = Inr url"
      "update_needed parse i (extract_version url) (force a)"
      "backup_step a env (after_prelude w) = (None, w4)"
      "install_steps env url (extract_version url) w4 = (x, w')"
proof -
  from main_cases [OF assms] show thesis
  proof (rule disjE)
    assume "(x = MissingDependencies \<or> x = NoSudo \<or> x = FetchFailed \<or> x = UpToDate \<or>
        (\<exists>e. x = Unhandled e \<and>
           (which_raises env = Some e \<or> get_installed_version (desktop env) = Inl e \<or>
            (\<exists>i url. get_installed_version (desktop env) = Inr i \<and> api env = Inr url \<and>
               already_up_to_date parse i (extract_version url) (force a) = Inl e)))) \<and>
      install_dir w' = install_dir w \<and> artifact w' = artifact w \<and>
      (\<exists>es. events w' = events w @ es \<and> set es \<subseteq> set prelude_events)"
    then show thesis by (elim conjE exE) (rule early)
  next
    assume "\<exists>i url. get_installed_version (desktop env) = Inr i \<and> api env = Inr url \<and>
        update_needed parse i (extract_version url) (force a) \<and>
        (if check a
         then x = Checked \<and>
              w' = emit (Print (check_report i (extract_version url))) (after_prelude w)
         else (\<exists>r w4. backup_step a env (after_prelude w) = (r, w4) \<and>
                (case r of
                   Some x0 \<Rightarrow> x = x0 \<and> w' = w4
                 | None \<Rightarrow> install_steps env url (extract_version url) w4 = (x, w'))))"
    then obtain i url
      where h: "get_installed_version (desktop env) = Inr i" "api env = Inr url"
        "update_needed parse i (extract_version url) (force a)"
      and c: "if check a
         then x = Checked \<and>
              w' = emit (Print (check_report i (extract_version url))) (after_prelude w)
         else (\<exists>r w4. backup_step a env (after_prelude w) = (r, w4) \<and>
                (case r of
                   Some x0 \<Rightarrow> x = x0 \<and> w' = w4
                 | None \<Rightarrow> install_steps env url (extract_version url) w4 = (x, w')))"
      by blast
    show thesis
    proof (cases "check a")
      case True
      with c h show thesis by (intro checked [of i url]) simp_all
    next
      case False
      with c obtain r w4 where b: "backup_step a env (after_prelude w) = (r, w4)"
        and r: "case r of Some x0 \<Rightarrow> x = x0 \<and> w' = w4
                 | None \<Rightarrow> install_steps env url (extract_version url) w4 = (x, w')"
        by auto
      show thesis
      proof (cases r)
        case None
        with b r h False show thesis by (intro update [of i url w4]) simp_all
      next
        case (Some x0)
        with b r h False show thesis by (intro aborted [of i url]) simp_all
      qed
    qed
  qed
qed



lemma backup_step_unhandled:
  assumes "backup_step a env w = (Some (Unhandled e), w')"
  shows "e = EOFError \<and> answer env = EndOfInput"
  using assms
  by (auto simp: backup_step_def Let_def split: if_splits response.splits prod.splits)

lemma main_unhandled:
  assumes "fst (main parse a env w) = Unhandled e"
  shows "which_raises env = Some e \<or> get_installed_version (desktop env) = Inl e \<or>
         (\<exists>i url. get_installed_version (desktop env) = Inr i \<and> api env = Inr url \<and>
            already_up_to_date parse i (extract_version url) (force a) = Inl e) \<or>
         (e = EOFError \<and> answer env = EndOfInput)"
proof -
  obtain x w' where m: "main parse a env w = (x, w')"
    by (cases "main parse a env w")
  with assms have x: "x = Unhandled e" by simp
  from m show ?thesis
  proof (cases rule: main_elim)
    case (early es)
    with x show ?thesis by auto
  next
    case (checked i url)
    with x show ?thesis by simp
  next
    case (aborted i url)
    with x backup_step_unhandled show ?thesis by blast
  next
    case (update i url w4)
    from install_steps_exits [OF update(6)] x show ?thesis by auto
  qed
qed

section \<open>Which runs reach which step\<close>

text \<open>
  A run that passes the checks, reads the installed version and resolves the latest one
  goes on as the comparison decides: it ends with the exception that leaves the
  comparison, it returns as up to date, it prints the report of a check-only run, or it
  continues with the backup and the installation. The question is asked whenever the
  backup fails, and the extraction command is run whenever the download succeeds and the
  temporary directory can be created.
\<close>

lemma backup_step_exits:
  assumes "backup_step a env w = (Some x, w')"
  shows "x = UpdateAborted \<or> x = Cancelled \<or> x = Unhandled EOFError"
  using assms
  by (auto simp: backup_step_def Let_def split: if_splits response.splits prod.splits)

lemma prelude_world:
  "emit ApiRequest (emit SudoValidate (w\<lparr>events := events w @ map Which dependencies\<rparr>))
     = after_prelude w"
  by (simp add: emit_def after_prelude_def prelude_events_def)

lemma check_dependencies_passed:
  assumes "fst (check_dependencies env w) = Inr True"
  shows "check_dependencies env w' = (Inr True, w'\<lparr>events := events w' @ map Which dependencies\<rparr>)"
  using assms by (auto simp: check_dependencies_def Let_def split: option.splits)

lemma main_after_prelude:
  assumes "fst (check_dependencies env w) = Inr True" and "sudo_ok env"
      and "get_installed_version (desktop env) = Inr i" and "api env = Inr url"
  shows "main parse a env w =
     (case already_up_to_date parse i (extract_version url) (force a) of
        Inl e \<Rightarrow> (Unhandled e, after_prelude w)
      | Inr up_to_date \<Rightarrow>
          if up_to_date then (UpToDate, after_prelude w)
          else if check a
          then (Checked, emit (Print (check_report i (extract_version url))) (after_prelude w))
          else
            (case backup_step a env (after_prelude w) of
               (Some x, w4) \<Rightarrow> (x, w4)
             | (None, w4) \<Rightarrow> install_steps env url (extract_version url) w4))"
  using assms(2,3,4)
  by (simp add: main_def Let_def check_dependencies_passed [OF assms(1)] fetch_latest_info_def
      prelude_world split: sum.splits)

lemma main_up_to_date_iff:
  assumes "fst (check_dependencies env w) = Inr True" and "sudo_ok env"
      and "get_installed_version (desktop env) = Inr i" and "api env = Inr url"
  shows "fst (main parse a env w) = UpToDate \<longleftrightarrow>
         already_up_to_date parse i (extract_version url) (force a) = Inr True"
proof -
  have b: "\<And>w0. fst (backup_step a env w0) \<noteq> Some UpToDate"
  proof
    fix w0
    assume "fst (backup_step a env w0) = Some UpToDate"
    then obtain w1 where "backup_step a env w0 = (Some UpToDate, w1)"
      by (cases "backup_step a env w0") simp
    from backup_step_exits [OF this] show False by simp
  qed
  have i: "\<And>u l w0. fst (install_steps env u l w0) \<noteq> UpToDate"
  proof
    fix u l w0
    assume a: "fst (install_steps env u l w0) = UpToDate"
    obtain x w1 where s: "install_steps env u l w0 = (x, w1)"
      by (cases "install_steps env u l w0")
    from install_steps_exits [OF s] a s show False by auto
  qed
  show ?thesis
    using b [of "after_prelude w"] i [of url "extract_version url"]
    unfolding main_after_prelude [OF assms]
    by (auto split: sum.splits prod.splits option.splits)
qed

lemma main_comparison_raises:
  assumes "fst (check_dependencies env w) = Inr True" and "sudo_ok env"
      and "get_installed_version (desktop env) = Inr i" and "api env = Inr url"
      and "already_up_to_date parse i (extract_version url) (force a) = Inl e"
  shows "main parse a env w = (Unhandled e, after_prelude w)"
  unfolding main_after_prelude [OF assms(1-4)] by (simp add: assms(5))

lemma main_update_path:
  assumes "fst (check_dependencies env w) = Inr True" and "sudo_ok env"
      and "get_installed_version (desktop env) = Inr i" and "api env = Inr url"
      and "update_needed parse i (extract_version url) (force a)" and "\<not> check a"
  shows "main parse a env w =
     (case backup_step a env (after_prelude w) of
        (Some x, w4) \<Rightarrow> (x, w4)
      | (None, w4) \<Rightarrow> install_steps env url (extract_version url) w4)"
  unfolding main_after_prelude [OF assms(1-4)]
  using assms(5,6) by (simp add: update_needed_def)

lemma prompt_when_backup_fails:
  assumes "fst (check_dependencies env (start d)) = Inr True" and "sudo_ok env"
      and "get_installed_version (desktop env) = Inr i" and "api env = Inr url"
      and "update_needed parse i (extract_version url) (force a)" and "\<not> check a"
      and "\<not> no_backup a" and "d \<noteq> None"
      and "\<not> fst (backup_existing_install env (start d))"
  shows "Prompt \<in> set (events (snd (main parse a env (start d))))"
proof -
  have b: "fst (backup_existing_install env (after_prelude (start d))) =
           fst (backup_existing_install env (start d))"
    by (simp add: backup_existing_install_def Let_def)
  obtain r w4 where s: "backup_step a env (after_prelude (start d)) = (r, w4)"
    by (cases "backup_step a env (after_prelude (start d))")
  have p: "Prompt \<in> set (events w4)"
    using s assms(7,8,9) b
    by (auto simp: backup_step_def Let_def split: if_splits response.splits prod.splits)
  show ?thesis
  proof (cases r)
    case (Some x)
    with s p main_update_path [OF assms(1-6)] show ?thesis by simp
  next
    case None
    obtain x w' where i: "install_steps env url (extract_version url) w4 = (x, w')"
      by (cases "install_steps env url (extract_version url) w4")
    from install_steps_events [OF i] p have "Prompt \<in> set (events w')" by auto
    with None s i main_update_path [OF assms(1-6)] show ?thesis by simp
  qed
qed

lemma extract_when_installer_runs:
  assumes "fst (check_dependencies env (start d)) = Inr True" and "sudo_ok env"
      and "get_installed_version (desktop env) = Inr i" and "api env = Inr url"
      and "update_needed parse i (extract_version url) (force a)" and "\<not> check a"
      and "fst (backup_step a env (after_prelude (start d))) = None"
      and "download env = Downloaded" and "tmpdir_ok env"
  shows "Extract \<in> set (events (snd (main parse a env (start d))))"
proof -
  obtain w4 where s: "backup_step a env (after_prelude (start d)) = (None, w4)"
    using assms(7) by (cases "backup_step a env (after_prelude (start d))") auto
  let ?w5 = "(emit (Download url) w4)\<lparr>artifact := True\<rparr>"
  obtain ok w6 where e: "extract_and_install env ?w5 = (ok, w6)"
    by (cases "extract_and_install env ?w5")
  have x: "Extract \<in> set (events w6)"
    using e assms(9)
    by (auto simp: extract_and_install_def Let_def fix_sandbox_def remove_old_def move_new_def
        split: if_splits option.splits prod.splits command_outcome.splits)
  obtain x w' where i: "install_steps env url (extract_version url) w4 = (x, w')"
    by (cases "install_steps env url (extract_version url) w4")
  obtain l w7 where u: "update_symlinks_and_db env w6 = (l, w7)"
    by (cases "update_symlinks_and_db env w6")
  from update_symlinks_and_db_events [OF u] x have "Extract \<in> set (events w7)" by auto
  with i e u x assms(8) have "Extract \<in> set (events w')"
    by (auto simp: install_steps_def Let_def download_appimage_def cleanup_def split: if_splits)
  with s i main_update_path [OF assms(1-6)] show ?thesis by simp
qed

section \<open>The pattern search finds the first word-bounded triple\<close>

lemma not_digit_dot [simp]: "\<not> is_digit CHR ''.''"
  by (simp add: is_digit_def)

lemma digit_is_word: "is_digit c \<Longrightarrow> is_word c"
  by (auto simp: is_digit_def is_word_def Let_def)

lemma digit_runs_iff:
  "(q, r') \<in> set (digit_runs p r) \<longleftrightarrow> (\<exists>d. digits d \<and> r = d @ r' \<and> q = Some (last d))"
proof (induction r arbitrary: p)
  case Nil
  then show ?case by (simp add: digits_def)
next
  case (Cons c r)
  show ?case
  proof
    assume "(q, r') \<in> set (digit_runs p (c # r))"
    then have c: "is_digit c" and m: "(q, r') \<in> set (digit_runs (Some c) r) \<or> (q = Some c \<and> r' = r)"
      by (auto split: if_splits)
    from m show "\<exists>d. digits d \<and> c # r = d @ r' \<and> q = Some (last d)"
    proof
      assume "(q, r') \<in> set (digit_runs (Some c) r)"
      with Cons.IH obtain d where "digits d" "r = d @ r'" "q = Some (last d)" by blast
      with c have "digits (c # d) \<and> c # r = (c # d) @ r' \<and> q = Some (last (c # d))"
        by (simp add: digits_def)
      then show ?thesis by blast
    next
      assume "q = Some c \<and> r' = r"
      with c have "digits [c] \<and> c # r = [c] @ r' \<and> q = Some (last [c])"
        by (simp add: digits_def)
      then show ?thesis by blast
    qed
  next
    assume "\<exists>d. digits d \<and> c # r = d @ r' \<and> q = Some (last d)"
    then obtain d where d: "digits d" "c # r = d @ r'" "q = Some (last d)" by blast
    then obtain d' where dd: "d = c # d'" by (cases d) (auto simp: digits_def)
    with d have c: "is_digit c" and r: "r = d' @ r'" by (auto simp: digits_def)
    show "(q, r') \<in> set (digit_runs p (c # r))"
    proof (cases "d' = []")
      case True
      with d dd c r show ?thesis by simp
    next
      case False
      with d dd have "digits d'" "q = Some (last d')" by (auto simp: digits_def)
      with r Cons.IH [of "Some c"] have "(q, r') \<in> set (digit_runs (Some c) r)" by blast
      with c show ?thesis by simp
    qed
  qed
qed

lemma digits_prefix_unique:
  assumes "digits a" and "digits b" and "a @ x = b @ y"
      and "x = [] \<or> \<not> is_digit (hd x)" and "y = [] \<or> \<not> is_digit (hd y)"
  shows "a = b \<and> x = y"
proof -
  have ta: "takeWhile is_digit (a @ x) = a"
    using assms(1,4) by (cases x) (auto simp: digits_def list_all_iff takeWhile_append2 takeWhile_eq_all_conv [THEN iffD2])
  have tb: "takeWhile is_digit (b @ y) = b"
    using assms(2,5) by (cases y) (auto simp: digits_def list_all_iff takeWhile_append2 takeWhile_eq_all_conv [THEN iffD2])
  from ta tb assms(3) have "a = b" by simp
  with assms(3) show ?thesis by simp
qed

lemma seq_match_Cons_iff:
  "k' \<in> set (seq_match (a # as) k) \<longleftrightarrow> (\<exists>k1. k1 \<in> set (atom_match a k) \<and> k' \<in> set (seq_match as k1))"
  by auto

lemma lit_match_iff:
  "(q, r') \<in> set (atom_match (Lit c) (p, r)) \<longleftrightarrow> r = c # r' \<and> q = Some c"
  by (cases r) auto

lemma boundary_match_iff:
  "(q, r') \<in> set (atom_match WordBoundary (p, r)) \<longleftrightarrow> boundary p r \<and> q = p \<and> r' = r"
  by auto

lemma digits_match_iff:
  "(q, r') \<in> set (atom_match Digits (p, r)) \<longleftrightarrow> (\<exists>d. digits d \<and> r = d @ r' \<and> q = Some (last d))"
  by (simp add: digit_runs_iff)

lemma tail_match_iff:
  "(q, r') \<in> set (seq_match [Digits, WordBoundary] (p, r)) \<longleftrightarrow>
     (\<exists>c. digits c \<and> r = c @ r' \<and> q = Some (last c) \<and> boundary (Some (last c)) r')"
  unfolding seq_match_Cons_iff
  by (auto simp: digits_match_iff boundary_match_iff simp del: atom_match.simps)

lemma dot_tail_match_iff:
  "(q, r') \<in> set (seq_match [Lit CHR ''.'', Digits, WordBoundary] (p, r)) \<longleftrightarrow>
     (\<exists>c. digits c \<and> r = CHR ''.'' # c @ r' \<and> q = Some (last c) \<and> boundary (Some (last c)) r')"
  unfolding seq_match_Cons_iff [of _ "Lit CHR ''.''"]
  by (auto simp: lit_match_iff tail_match_iff simp del: atom_match.simps seq_match.simps)

lemma two_tail_match_iff:
  "(q, r') \<in> set (seq_match [Digits, Lit CHR ''.'', Digits, WordBoundary] (p, r)) \<longleftrightarrow>
     (\<exists>b c. digits b \<and> digits c \<and> r = b @ CHR ''.'' # c @ r' \<and> q = Some (last c) \<and>
        boundary (Some (last c)) r')"
  unfolding seq_match_Cons_iff [of _ Digits]
  by (auto simp: digits_match_iff dot_tail_match_iff simp del: atom_match.simps seq_match.simps)

lemma dot_two_tail_match_iff:
  "(q, r') \<in> set (seq_match [Lit CHR ''.'', Digits, Lit CHR ''.'', Digits, WordBoundary] (p, r)) \<longleftrightarrow>
     (\<exists>b c. digits b \<and> digits c \<and> r = CHR ''.'' # b @ CHR ''.'' # c @ r' \<and> q = Some (last c) \<and>
        boundary (Some (last c)) r')"
  unfolding seq_match_Cons_iff [of _ "Lit CHR ''.''"]
  by (auto simp: lit_match_iff two_tail_match_iff simp del: atom_match.simps seq_match.simps)

lemma three_match_iff:
  "(q, r') \<in> set (seq_match [Digits, Lit CHR ''.'', Digits, Lit CHR ''.'', Digits, WordBoundary] (p, r)) \<longleftrightarrow>
     (\<exists>a b c. digits a \<and> digits b \<and> digits c \<and> r = a @ CHR ''.'' # b @ CHR ''.'' # c @ r' \<and>
        q = Some (last c) \<and> boundary (Some (last c)) r')"
  unfolding seq_match_Cons_iff [of _ Digits]
  by (auto simp: digits_match_iff dot_two_tail_match_iff simp del: atom_match.simps seq_match.simps)

lemma dotted_triple_last:
  "digits c \<Longrightarrow> last (a @ CHR ''.'' # b @ CHR ''.'' # c) = last c"
  by (simp add: digits_def)

lemma version_match_iff:
  "(q, r') \<in> set (seq_match version_pattern (p, r)) \<longleftrightarrow>
     (\<exists>w. dotted_triple w \<and> r = w @ r' \<and> boundary p r \<and> boundary (Some (last w)) r' \<and>
        q = Some (last w))"
proof -
  have "(q, r') \<in> set (seq_match version_pattern (p, r)) \<longleftrightarrow>
      boundary p r \<and>
      (q, r') \<in> set (seq_match [Digits, Lit CHR ''.'', Digits, Lit CHR ''.'', Digits, WordBoundary] (p, r))"
    unfolding version_pattern_def seq_match_Cons_iff [of _ WordBoundary]
    by (auto simp: boundary_match_iff simp del: atom_match.simps seq_match.simps)
  also have "\<dots> \<longleftrightarrow> (\<exists>w. dotted_triple w \<and> r = w @ r' \<and> boundary p r \<and>
        boundary (Some (last w)) r' \<and> q = Some (last w))"
  proof
    assume l: "boundary p r \<and>
      (q, r') \<in> set (seq_match [Digits, Lit CHR ''.'', Digits, Lit CHR ''.'', Digits, WordBoundary] (p, r))"
    then obtain a b c where d: "digits a" "digits b" "digits c"
      and r: "r = a @ CHR ''.'' # b @ CHR ''.'' # c @ r'"
      and q: "q = Some (last c)" "boundary (Some (last c)) r'"
      unfolding three_match_iff by blast
    let ?w = "a @ CHR ''.'' # b @ CHR ''.'' # c"
    from d have "dotted_triple ?w" unfolding dotted_triple_def by blast
    moreover from r have "r = ?w @ r'" by simp
    moreover from d(3) have "last ?w = last c" by (rule dotted_triple_last)
    ultimately show "\<exists>w. dotted_triple w \<and> r = w @ r' \<and> boundary p r \<and>
        boundary (Some (last w)) r' \<and> q = Some (last w)"
      using l q by metis
  next
    assume "\<exists>w. dotted_triple w \<and> r = w @ r' \<and> boundary p r \<and>
        boundary (Some (last w)) r' \<and> q = Some (last w)"
    then obtain w where w: "dotted_triple w" "r = w @ r'" "boundary p r"
      "boundary (Some (last w)) r'" "q = Some (last w)" by blast
    from w(1) obtain a b c where d: "digits a" "digits b" "digits c"
      and e: "w = a @ CHR ''.'' # b @ CHR ''.'' # c"
      unfolding dotted_triple_def by blast
    from d(3) have "last w = last c" unfolding e by (rule dotted_triple_last)
    with w d e have "digits a \<and> digits b \<and> digits c \<and> r = a @ CHR ''.'' # b @ CHR ''.'' # c @ r' \<and>
        q = Some (last c) \<and> boundary (Some (last c)) r'"
      by simp
    then show "boundary p r \<and>
      (q, r') \<in> set (seq_match [Digits, Lit CHR ''.'', Digits, Lit CHR ''.'', Digits, WordBoundary] (p, r))"
      unfolding three_match_iff using w(3) by blast
  qed
  finally show ?thesis .
qed

lemma digits_last: "digits c \<Longrightarrow> is_digit (last c)"
  by (induction c) (auto simp: digits_def)

lemma dotted_triple_not_Nil: "dotted_triple w \<Longrightarrow> w \<noteq> []"
  by (auto simp: dotted_triple_def)

lemma boundary_after_digit:
  assumes "is_digit d" and "boundary (Some d) x"
  shows "x = [] \<or> \<not> is_digit (hd x)"
  using assms digit_is_word
  by (cases x) (auto simp: boundary_def word_before_def word_after_def)

lemma triple_unique:
  assumes "dotted_triple w" and "dotted_triple w'" and "w @ x = w' @ y"
      and "boundary (Some (last w)) x" and "boundary (Some (last w')) y"
  shows "w = w'"
proof -
  from assms(1) obtain a b c where d: "digits a" "digits b" "digits c"
    and w: "w = a @ CHR ''.'' # b @ CHR ''.'' # c"
    unfolding dotted_triple_def by blast
  from assms(2) obtain a' b' c' where d': "digits a'" "digits b'" "digits c'"
    and w': "w' = a' @ CHR ''.'' # b' @ CHR ''.'' # c'"
    unfolding dotted_triple_def by blast
  have lw: "last w = last c" unfolding w using d(3) by (rule dotted_triple_last)
  have lw': "last w' = last c'" unfolding w' using d'(3) by (rule dotted_triple_last)
  from assms(3) have e1: "a @ (CHR ''.'' # b @ CHR ''.'' # c @ x) = a' @ (CHR ''.'' # b' @ CHR ''.'' # c' @ y)"
    by (simp add: w w')
  have a: "a = a' \<and> CHR ''.'' # b @ CHR ''.'' # c @ x = CHR ''.'' # b' @ CHR ''.'' # c' @ y"
    by (rule digits_prefix_unique [OF d(1) d'(1) e1]) simp_all
  then have e2: "b @ (CHR ''.'' # c @ x) = b' @ (CHR ''.'' # c' @ y)" by simp
  have b: "b = b' \<and> CHR ''.'' # c @ x = CHR ''.'' # c' @ y"
    by (rule digits_prefix_unique [OF d(2) d'(2) e2]) simp_all
  then have e3: "c @ x = c' @ y" by simp
  have x: "x = [] \<or> \<not> is_digit (hd x)"
    using boundary_after_digit [OF digits_last [OF d(3)]] assms(4) lw by simp
  have y: "y = [] \<or> \<not> is_digit (hd y)"
    using boundary_after_digit [OF digits_last [OF d'(3)]] assms(5) lw' by simp
  from digits_prefix_unique [OF d(3) d'(3) e3 x y] have "c = c'" by simp
  with a b show ?thesis by (simp add: w w')
qed

lemma match_here_Some_iff:
  "match_here version_pattern (p, r) = Some w \<longleftrightarrow>
     (\<exists>post. r = w @ post \<and> dotted_triple w \<and> boundary p r \<and> boundary (Some (last w)) post)"
proof
  assume m: "match_here version_pattern (p, r) = Some w"
  then obtain q r' ks where s: "seq_match version_pattern (p, r) = (q, r') # ks"
    and w: "w = take (length r - length r') r"
    by (auto simp: match_here_def split: list.splits)
  then have "(q, r') \<in> set (seq_match version_pattern (p, r))" by simp
  then obtain v where v: "dotted_triple v" "r = v @ r'" "boundary p r" "boundary (Some (last v)) r'"
    unfolding version_match_iff by blast
  from v(2) w have "w = v" by simp
  with v show "\<exists>post. r = w @ post \<and> dotted_triple w \<and> boundary p r \<and> boundary (Some (last w)) post"
    by blast
next
  assume "\<exists>post. r = w @ post \<and> dotted_triple w \<and> boundary p r \<and> boundary (Some (last w)) post"
  then obtain post where h: "r = w @ post" "dotted_triple w" "boundary p r"
    "boundary (Some (last w)) post" by blast
  then have "(Some (last w), post) \<in> set (seq_match version_pattern (p, r))"
    unfolding version_match_iff by blast
  then obtain q r' ks where s: "seq_match version_pattern (p, r) = (q, r') # ks"
    by (cases "seq_match version_pattern (p, r)") auto
  then have "(q, r') \<in> set (seq_match version_pattern (p, r))" by simp
  then obtain v where v: "dotted_triple v" "r = v @ r'" "boundary p r" "boundary (Some (last v)) r'"
    unfolding version_match_iff by blast
  from h(1) v(2) have "w @ post = v @ r'" by simp
  from triple_unique [OF h(2) v(1) this h(4) v(4)] have "w = v" .
  with v(2) have "take (length r - length r') r = w" by simp
  with s show "match_here version_pattern (p, r) = Some w"
    by (simp add: match_here_def)
qed

lemma char_before_simps [simp]:
  "char_before p [] = p" "char_before p (c # pre) = char_before (Some c) pre"
  "w \<noteq> [] \<Longrightarrow> char_before p (pre @ w) = Some (last w)"
  "w \<noteq> [] \<Longrightarrow> char_before p w = Some (last w)"
  by (simp_all add: char_before_def)

lemma version_at_head:
  "version_at p r [] w post \<longleftrightarrow> match_here version_pattern (p, r) = Some w \<and> r = w @ post"
  unfolding match_here_Some_iff version_at_def word_bounded_def
  by (auto simp: dotted_triple_not_Nil)

lemma version_at_shift:
  "version_at p (c # r) (c # pre) w post \<longleftrightarrow> version_at (Some c) r pre w post"
  by (simp add: version_at_def word_bounded_def)

lemma version_at_Nil: "\<not> version_at p [] pre w post"
  by (auto simp: version_at_def dotted_triple_not_Nil)

lemma version_at_cases:
  assumes "version_at p (c # r) pre w post"
  shows "pre = [] \<or> (\<exists>pre'. pre = c # pre' \<and> version_at (Some c) r pre' w post)"
proof (cases pre)
  case Nil
  then show ?thesis by simp
next
  case (Cons x pre')
  with assms have "x = c" by (simp add: version_at_def)
  with assms Cons show ?thesis by (simp add: version_at_shift)
qed

lemma re_search_None:
  "re_search version_pattern p r = None \<Longrightarrow> \<not> version_at p r pre w post"
proof (induction r arbitrary: p pre)
  case Nil
  show ?case by (rule version_at_Nil)
next
  case (Cons c r)
  from Cons.prems have h: "match_here version_pattern (p, c # r) = None"
    and t: "re_search version_pattern (Some c) r = None"
    by (auto split: option.splits)
  show ?case
  proof
    assume v: "version_at p (c # r) pre w post"
    from version_at_cases [OF v] show False
    proof
      assume "pre = []"
      with v h show False by (simp add: version_at_head)
    next
      assume "\<exists>pre'. pre = c # pre' \<and> version_at (Some c) r pre' w post"
      with Cons.IH [OF t] show False by blast
    qed
  qed
qed

lemma re_search_Some:
  assumes "re_search version_pattern p r = Some m"
  shows "\<exists>pre post. version_at p r pre m post \<and>
           (\<forall>pre' w' post'. version_at p r pre' w' post' \<longrightarrow>
              length pre \<le> length pre' \<and> (length pre' = length pre \<longrightarrow> w' = m))"
  using assms
proof (induction r arbitrary: p)
  case Nil
  then have "match_here version_pattern (p, []) = Some m" by simp
  then have "dotted_triple m \<and> m = []"
    unfolding match_here_Some_iff by auto
  with dotted_triple_not_Nil show ?case by blast
next
  case (Cons c r)
  show ?case
  proof (cases "match_here version_pattern (p, c # r)")
    case (Some m')
    with Cons.prems have mm: "m' = m" by simp
    from Some mm obtain post where post: "c # r = m @ post"
      unfolding match_here_Some_iff by blast
    with Some mm have v: "version_at p (c # r) [] m post" by (simp add: version_at_head)
    have "\<forall>pre' w' post'. version_at p (c # r) pre' w' post' \<longrightarrow>
              length [] \<le> length pre' \<and> (length pre' = length [] \<longrightarrow> w' = m)"
      using Some mm by (auto simp: version_at_head)
    with v show ?thesis by blast
  next
    case None
    with Cons.prems have t: "re_search version_pattern (Some c) r = Some m" by simp
    from Cons.IH [OF t] obtain pre post where v: "version_at (Some c) r pre m post"
      and least: "\<forall>pre' w' post'. version_at (Some c) r pre' w' post' \<longrightarrow>
              length pre \<le> length pre' \<and> (length pre' = length pre \<longrightarrow> w' = m)"
      by blast
    from v have v': "version_at p (c # r) (c # pre) m post" by (simp add: version_at_shift)
    have "\<forall>pre' w' post'. version_at p (c # r) pre' w' post' \<longrightarrow>
              length (c # pre) \<le> length pre' \<and> (length pre' = length (c # pre) \<longrightarrow> w' = m)"
    proof (intro allI impI)
      fix pre' w' post'
      assume a: "version_at p (c # r) pre' w' post'"
      from version_at_cases [OF a]
      show "length (c # pre) \<le> length pre' \<and> (length pre' = length (c # pre) \<longrightarrow> w' = m)"
      proof
        assume "pre' = []"
        with a None show ?thesis by (simp add: version_at_head)
      next
        assume "\<exists>pre''. pre' = c # pre'' \<and> version_at (Some c) r pre'' w' post'"
        then obtain pre'' where p: "pre' = c # pre''" "version_at (Some c) r pre'' w' post'"
          by blast
        with least have "length pre \<le> length pre'' \<and> (length pre'' = length pre \<longrightarrow> w' = m)"
          by blast
        with p(1) show ?thesis by simp
      qed
    qed
    with v' show ?thesis by blast
  qed
qed

lemma extract_version_search:
  "(extract_version url = ''Unknown'' \<and> (\<forall>pre w post. \<not> version_at None url pre w post)) \<or>
   (\<exists>pre post. version_at None url pre (extract_version url) post \<and>
      (\<forall>pre' w' post'. version_at None url pre' w' post' \<longrightarrow>
         length pre \<le> length pre' \<and> (length pre' = length pre \<longrightarrow> w' = extract_version url)))"
proof (cases "re_search version_pattern None url")
  case None
  then have "extract_version url = ''Unknown''" by (simp add: extract_version_def)
  with re_search_None [OF None] show ?thesis by blast
next
  case (Some m)
  then have "extract_version url = m" by (simp add: extract_version_def)
  with re_search_Some [OF Some] show ?thesis by simp
qed

lemma extract_version_not_empty: "extract_version url \<noteq> []"
  using extract_version_search [of url]
  by (auto simp: version_at_def dotted_triple_not_Nil)

section \<open>The lines of the desktop file\<close>

lemma split_once_version_key:
  assumes "startswith line version_key"
  shows "split_once CHR ''='' line = [''X-AppImage-Version'', drop (length version_key) line]"
proof -
  from assms have "line = version_key @ drop (length version_key) line"
    by (metis append_take_drop_id startswith_def)
  then obtain rest where l: "line = version_key @ rest" and r: "rest = drop (length version_key) line"
    by blast
  have "split_once CHR ''='' (version_key @ rest) = [''X-AppImage-Version'', rest]"
    by (simp add: split_once_def version_key_def)
  with l r show ?thesis by simp
qed

lemma scan_lines_none:
  "\<not> list_ex (\<lambda>l. startswith l version_key) ls \<Longrightarrow> scan_lines ls = Inr None"
  by (induction ls) auto

lemma scan_lines_first:
  assumes "\<not> list_ex (\<lambda>l. startswith l version_key) before"
      and "startswith line version_key"
  shows "scan_lines (before @ line # after) = Inr (Some (strip (drop (length version_key) line)))"
  using assms
  by (induction before) (auto simp: split_once_version_key)

lemma scan_lines_total: "\<exists>v. scan_lines ls = Inr v"
  by (induction ls) (auto simp: split_once_version_key)

section \<open>A version text with an oversized number\<close>

lemma list_all_replicate: "list_all P (replicate n x) \<longleftrightarrow> n = 0 \<or> P x"
  by (induction n) auto

lemma splitlines_no_break:
  "list_all (\<lambda>c. \<not> is_linebreak c) s \<Longrightarrow>
     splitlines_from cur s = (if cur @ s = [] then [] else [cur @ s])"
proof (induction s arbitrary: cur)
  case Nil
  show ?case by simp
next
  case (Cons c s)
  from Cons.prems have c: "\<not> is_linebreak c" and s: "list_all (\<lambda>c. \<not> is_linebreak c) s"
    by simp_all
  have "is_linebreak (CHR 0x0D)" by (simp add: is_linebreak_def)
  with c have "c \<noteq> CHR 0x0D" by auto
  with c Cons.IH [OF s, of "cur @ [c]"] show ?case by simp
qed

lemma strip_id:
  assumes "s \<noteq> []" and "\<not> is_space (hd s)" and "\<not> is_space (last s)"
  shows "strip s = s"
proof -
  from assms(1,2) have "dropWhile is_space s = s" by (cases s) auto
  moreover from assms(1,3) have "dropWhile is_space (rev s) = rev s"
    by (cases "rev s") (auto simp: hd_rev [symmetric])
  ultimately show ?thesis by (simp add: strip_def)
qed

lemma split_dots_no_dot:
  "list_all (\<lambda>c. c \<noteq> CHR ''.'') s \<Longrightarrow> split_dots_from cur s = [cur @ s]"
  by (induction s arbitrary: cur) auto

lemma parse_release_oversized:
  assumes "4300 < n"
  shows "parse_release (''0.'' @ replicate n CHR ''1'') = Inl ValueError"
proof -
  have "split_dots_from [] (''0.'' @ replicate n CHR ''1'') = [''0'', replicate n CHR ''1'']"
    by (simp add: split_dots_no_dot list_all_replicate)
  moreover have "is_number ''0''" "is_number (replicate n CHR ''1'')"
    using assms by (simp_all add: is_number_def is_digit_def list_all_replicate)
  ultimately show ?thesis
    using assms by (simp add: parse_release_def)
qed

lemma read_single_version_line:
  assumes "0 < n"
  shows "get_installed_version (ReadText (version_key @ ''0.'' @ replicate n CHR ''1'')) =
           Inr (Some (''0.'' @ replicate n CHR ''1''))"
proof -
  let ?v = "''0.'' @ replicate n CHR ''1''"
  have "list_all (\<lambda>c. \<not> is_linebreak c) (version_key @ ?v)"
    by (simp add: version_key_def is_linebreak_def list_all_replicate)
  then have l: "splitlines (version_key @ ?v) = [] @ (version_key @ ?v) # []"
    by (simp add: splitlines_def splitlines_no_break)
  have k: "startswith (version_key @ ?v) version_key"
    by (simp add: startswith_def)
  have "last ?v = CHR ''1''" using assms by simp
  then have "strip ?v = ?v"
    by (intro strip_id) (simp_all add: is_space_def)
  with scan_lines_first [of "[]" "version_key @ ?v" "[]"] k l
  show ?thesis by (simp add: get_installed_version_def)
qed

lemma long_version_parse: "parse_release long_version = Inl ValueError"
  unfolding long_version_def by (rule parse_release_oversized) simp

lemma long_version_read: "get_installed_version long_desktop = Inr (Some long_version)"
  unfolding long_desktop_def long_version_def version_key_def [symmetric]
  by (rule read_single_version_line) simp

lemma long_version_not_Nil: "long_version \<noteq> []"
proof -
  have "\<And>xs. ''0.'' @ xs \<noteq> []" by simp
  then show ?thesis unfolding long_version_def .
qed

lemma long_version_other: "long_version \<noteq> ''0.43.1''"
proof
  assume "long_version = ''0.43.1''"
  then have "length long_version = length ''0.43.1''" by (rule arg_cong)
  then show False unfolding long_version_def length_append length_replicate by simp
qed

lemma long_version_comparison:
  "already_up_to_date parse_release (Some long_version) ''0.43.1'' False = Inl ValueError"
  by (simp add: already_up_to_date_def long_version_not_Nil long_version_parse fallback_def)

section \<open>What the reader and the comparison do where they succeed\<close>

text \<open>
  Once the desktop file can be inspected, the installed version is absent when the file
  does not exist, when reading it fails with an operating system error such as a
  permission error, and when no line of the text starts with the key. Otherwise it is the
  text after the key on the first line that starts with it, without the white space around
  it.
\<close>

lemma get_installed_version_reads:
  "get_installed_version NotAFile = Inr None \<and>
   get_installed_version (ReadRaises PermissionError) = Inr None \<and>
   get_installed_version (ReadRaises OSError) = Inr None \<and>
   (\<exists>v. get_installed_version (ReadText t) = Inr v) \<and>
   (\<not> list_ex (\<lambda>l. startswith l version_key) (splitlines t) \<longrightarrow>
      get_installed_version (ReadText t) = Inr None) \<and>
   (splitlines t = before @ line # after \<and>
    \<not> list_ex (\<lambda>l. startswith l version_key) before \<and> startswith line version_key \<longrightarrow>
      get_installed_version (ReadText t) = Inr (Some (strip (drop (length version_key) line))))"
  using scan_lines_total [of "splitlines t"]
  by (auto simp: get_installed_version_def caught_by_reader_def scan_lines_none scan_lines_first)

text \<open>
  When the library rejects one of the two texts with \<open>InvalidVersion\<close>, the comparison
  falls back to the texts: an update is needed exactly when they differ.
\<close>

lemma fallback_compares_texts:
  assumes "i \<noteq> [] \<or> latest \<noteq> []" and "latest \<noteq> ''Unknown''"
      and "parse i = Inl InvalidVersion \<or>
           (\<exists>v. parse i = Inr v) \<and> parse latest = Inl InvalidVersion"
  shows "update_needed parse (Some i) latest False = (i \<noteq> latest)"
  using assms
  by (auto simp: update_needed_def already_up_to_date_def fallback_def split: sum.splits)





section \<open>Properties of the updater\<close>

text \<open>
  C1. When an installed version is present, the latest version is known, both texts parse
  as versions and the force flag is unset, an update is needed exactly when the latest
  version is greater than the installed one in the order of versions; in particular no
  update is needed when the two versions are equal. The installed text is present when
  it is not empty: this is the test \<open>if installed_version\<close> of the code, and no version
  text is empty.
\<close>

theorem update_needed_iff_newer:
  assumes "i \<noteq> []" and "latest \<noteq> ''Unknown''"
      and "parse i = Inr vi" and "parse latest = Inr vl"
  shows "update_needed parse (Some i) latest False = (vi < vl) \<and>
         (vi = vl \<longrightarrow> \<not> update_needed parse (Some i) latest False)"
  using assms by (auto simp: update_needed_def already_up_to_date_def)

theorem update_needed_iff_newer_witness:
  "update_needed parse_release (Some ''0.42.0'') ''0.43.1'' False \<and>
   \<not> update_needed parse_release (Some ''0.43.1'') ''0.43.1'' False \<and>
   \<not> update_needed parse_release (Some ''0.43.1.0'') ''0.43.1'' False \<and>
   \<not> update_needed parse_release (Some ''0.44'') ''0.43.1'' False"
proof -
  have v: "parse_release ''0.43.1.0'' = Inr [0, 43, 1]" "parse_release ''0.44'' = Inr [0, 44]"
    by (simp_all add: parse_defs text_defs)
  show ?thesis
    using update_needed_iff_newer [of "''0.42.0''" "''0.43.1''" parse_release "[0, 42]" "[0, 43, 1]"]
      update_needed_iff_newer [of "''0.43.1''" "''0.43.1''" parse_release "[0, 43, 1]" "[0, 43, 1]"]
      update_needed_iff_newer [of "''0.43.1.0''" "''0.43.1''" parse_release "[0, 43, 1]" "[0, 43, 1]"]
      update_needed_iff_newer [of "''0.44''" "''0.43.1''" parse_release "[0, 44]" "[0, 43, 1]"]
    by (simp add: example_versions v)
qed

text \<open>
  C2, as amended. For every URL, \<open>extract_version\<close> returns a value and never raises.
  It returns the first dotted triple of digits of the URL that has a word boundary on both
  sides: the occurrence that starts leftmost, which is the only one at its start. It
  returns "Unknown" exactly when the URL has no such occurrence. A triple next to a
  letter, a digit or an underscore is not found.
\<close>

theorem extract_version_first_bounded_match:
  "(extract_version url = ''Unknown'' \<and> (\<forall>pre w post. \<not> version_at None url pre w post)) \<or>
   (\<exists>pre post. version_at None url pre (extract_version url) post \<and>
      (\<forall>pre' w' post'. version_at None url pre' w' post' \<longrightarrow>
         length pre \<le> length pre' \<and> (length pre' = length pre \<longrightarrow> w' = extract_version url)))"
  by (rule extract_version_search)

theorem extract_version_first_bounded_match_witness:
  "extract_version example_url = ''0.43.1'' \<and>
   (\<exists>pre post. version_at None example_url pre ''0.43.1'' post \<and>
      (\<forall>pre' w' post'. version_at None example_url pre' w' post' \<longrightarrow>
         length pre \<le> length pre' \<and> (length pre' = length pre \<longrightarrow> w' = ''0.43.1'')))"
  using extract_version_first_bounded_match [of example_url] by (simp add: example_latest)

text \<open>
  C2 as stated fails: the URL below contains the triple 1.2.3, but the letter before
  it leaves no word boundary there, and the result is "Unknown".
\<close>

theorem extract_version_needs_word_boundary:
  "unbounded_url = ''https://example.com/v'' @ ''1.2.3'' @ ''/cursor.AppImage'' \<and>
   dotted_triple ''1.2.3'' \<and>
   extract_version unbounded_url = ''Unknown''"
proof -
  have "digits ''1''" "digits ''2''" "digits ''3''"
    by (simp_all add: digits_def is_digit_def)
  then have "dotted_triple ''1.2.3''"
    unfolding dotted_triple_def
    by (intro exI [of _ "''1''"] exI [of _ "''2''"] exI [of _ "''3''"]) simp
  moreover have "extract_version unbounded_url = ''Unknown''"
    by (simp add: unbounded_url_def search_defs text_defs)
  ultimately show ?thesis by (simp add: unbounded_url_def)
qed

text \<open>
  C3 fails on the code. The installed text below is the number 0 followed by a number of
  4301 digits; it differs from the latest text 0.43.1 and the force flag is unset. The
  library cannot convert the number and raises \<open>ValueError\<close>, which is no
  \<open>InvalidVersion\<close>: the \<open>except\<close> clause of the comparison does not catch it, no
  comparison of the texts takes place, and the run ends with an unhandled exception and
  status 1.
\<close>

theorem oversized_version_is_fatal:
  "long_version \<noteq> ''0.43.1'' \<and>
   parse_release long_version = Inl ValueError \<and>
   already_up_to_date parse_release (Some long_version) ''0.43.1'' False = Inl ValueError \<and>
   get_installed_version long_desktop = Inr (Some long_version) \<and>
   \<not> force example_args \<and>
   fst (main parse_release example_args (example_env\<lparr>desktop := long_desktop\<rparr>) (start (Some 42)))
     = Unhandled ValueError \<and>
   exit_status (Unhandled ValueError) = 1"
proof -
  have "main parse_release example_args (example_env\<lparr>desktop := long_desktop\<rparr>) (start (Some 42))
      = (Unhandled ValueError, after_prelude (start (Some 42)))"
    by (rule main_comparison_raises [where i = "Some long_version" and url = example_url])
      (simp_all add: example_env_def example_args_def check_dependencies_def dependencies_def
        long_version_read example_latest long_version_comparison)
  then show ?thesis
    by (simp add: long_version_other long_version_parse long_version_comparison long_version_read
        example_args_def exit_status_def)
qed




text \<open>
  C5. A run changes the install directory, or runs the command that removes it or the one
  that replaces it, only when an update is needed and the run is not check-only; such a
  run ends as an upgrade or as a failed installation. So a run that is up to date, a
  check-only run and a run that stops before the installation leave the directory as it was.
\<close>

theorem install_dir_frame:
  assumes "main parse a env (start d) = (x, w')"
      and "install_dir w' \<noteq> d \<or> RemoveInstall \<in> set (events w') \<or> MoveInstall \<in> set (events w')"
  shows "\<not> check a \<and> (x = Upgraded \<or> x = InstallationFailed) \<and>
         (\<exists>i url. get_installed_version (desktop env) = Inr i \<and> api env = Inr url \<and>
            update_needed parse i (extract_version url) (force a))"
  using assms(1)
proof (cases rule: main_elim)
  case (early es)
  with assms(2) show ?thesis by (auto simp: prelude_events_harmless)
next
  case (checked i url)
  with assms(2) show ?thesis by (auto simp: prelude_events_harmless)
next
  case (aborted i url)
  from backup_step_events [OF aborted(5)] assms(2) show ?thesis
    by (auto simp: prelude_events_harmless)
next
  case (update i url w4)
  from install_steps_exits [OF update(6)] backup_step_events [OF update(5)] assms(2)
  have "x = Upgraded \<or> x = InstallationFailed"
    by (auto simp: prelude_events_harmless)
  with update show ?thesis by blast
qed

theorem install_dir_frame_witness:
  "install_dir (snd (main parse_release example_args example_env (start (Some 42)))) \<noteq> Some 42 \<and>
   \<not> check example_args \<and>
   fst (main parse_release example_args example_env (start (Some 42))) = Upgraded \<and>
   (\<exists>i url. get_installed_version (desktop example_env) = Inr i \<and> api example_env = Inr url \<and>
      update_needed parse_release i (extract_version url) (force example_args))"
  using install_dir_frame [OF example_run] by (simp add: example_run)

text \<open>
  C6. When the extraction does not produce \<open>squashfs-root\<close> (the command fails or the
  directory is missing), the install step fails and leaves the install directory as it
  was; a run that has reached the extraction ends with "Installation failed" and status 1,
  the install directory is unchanged, the old installation is never removed and the
  symlink and the desktop database are not touched.
\<close>

theorem extraction_failure_aborts:
  assumes "main parse a env (start d) = (x, w')"
      and "Extract \<in> set (events w')"
      and "\<not> extract_ok env \<or> squashfs_root env = None"
  shows "x = InstallationFailed \<and> exit_status x = 1 \<and> install_dir w' = d \<and>
         RemoveInstall \<notin> set (events w') \<and> MoveInstall \<notin> set (events w') \<and>
         RemoveSymlink \<notin> set (events w') \<and> MakeSymlink \<notin> set (events w') \<and>
         UpdateDesktopDb \<notin> set (events w') \<and>
         (\<forall>w. \<not> fst (extract_and_install env w) \<and>
               install_dir (snd (extract_and_install env w)) = install_dir w)"
proof -
  have inst: "\<forall>w. \<not> fst (extract_and_install env w) \<and>
               install_dir (snd (extract_and_install env w)) = install_dir w"
    using extract_and_install_no_payload [OF assms(3)] by blast
  have "x = InstallationFailed \<and> install_dir w' = d \<and>
         RemoveInstall \<notin> set (events w') \<and> MoveInstall \<notin> set (events w') \<and>
         RemoveSymlink \<notin> set (events w') \<and> MakeSymlink \<notin> set (events w') \<and>
         UpdateDesktopDb \<notin> set (events w')"
    using assms(1)
  proof (cases rule: main_elim)
    case (early es)
    with assms(2) show ?thesis by (auto simp: prelude_events_harmless)
  next
    case (checked i url)
    with assms(2) show ?thesis by (auto simp: prelude_events_harmless)
  next
    case (aborted i url)
    from backup_step_events [OF aborted(5)] assms(2) show ?thesis
      by (auto simp: prelude_events_harmless)
  next
    case (update i url w4)
    from install_steps_no_payload [OF update(6) assms(3)] backup_step_events [OF update(5)] assms(2)
    show ?thesis
      by (auto simp: prelude_events_harmless)
  qed
  with inst show ?thesis by (simp add: exit_status_def)
qed

theorem extraction_failure_aborts_witness:
  "squashfs_root (example_env\<lparr>squashfs_root := None\<rparr>) = None \<and>
   main parse_release example_args (example_env\<lparr>squashfs_root := None\<rparr>) (start (Some 42)) =
     (InstallationFailed, \<lparr>install_dir = Some 42, artifact = True,
        events = [Which ''sudo'', Which ''update-desktop-database'', SudoValidate, ApiRequest,
          CopyInstall, Download example_url, Extract]\<rparr>) \<and>
   \<not> fst (extract_and_install (example_env\<lparr>squashfs_root := None\<rparr>) (start (Some 42)))"
  using extraction_failure_aborts [OF no_payload_run] no_payload_run by simp

text \<open>
  C7. When the backup fails, so that the question is asked, and the user does not answer
  "y", the run ends with "Update aborted" and status 1: nothing is downloaded, no
  temporary file exists and the install directory is not changed.
\<close>

theorem declined_backup_aborts:
  assumes "main parse a env (start d) = (x, w')"
      and "Prompt \<in> set (events w')"
      and "answer env = Typed s" and "\<not> confirmed s"
  shows "x = UpdateAborted \<and> exit_status x = 1 \<and> (\<forall>url. Download url \<notin> set (events w')) \<and>
         install_dir w' = d \<and> RemoveInstall \<notin> set (events w') \<and> MoveInstall \<notin> set (events w') \<and>
         \<not> artifact w' \<and> \<not> fst (backup_existing_install env (start d))"
proof -
  have b: "fst (backup_existing_install env (after_prelude (start d))) =
           fst (backup_existing_install env (start d))"
    by (simp add: backup_existing_install_def Let_def)
  have "x = UpdateAborted \<and> (\<forall>url. Download url \<notin> set (events w')) \<and>
         install_dir w' = d \<and> RemoveInstall \<notin> set (events w') \<and> MoveInstall \<notin> set (events w') \<and>
         \<not> artifact w' \<and> \<not> fst (backup_existing_install env (start d))"
    using assms(1)
  proof (cases rule: main_elim)
    case (early es)
    with assms(2) show ?thesis by (auto simp: prelude_events_harmless)
  next
    case (checked i url)
    with assms(2) show ?thesis by (auto simp: prelude_events_harmless)
  next
    case (aborted i url)
    from backup_step_events [OF aborted(5)] assms(2,3,4) show ?thesis
      by (auto simp: prelude_events_harmless b)
  next
    case (update i url w4)
    from install_steps_events [OF update(6)] backup_step_events [OF update(5)] assms(2,3,4)
    show ?thesis
      by (auto simp: prelude_events_harmless b)
  qed
  then show ?thesis by (simp add: exit_status_def)
qed

theorem declined_backup_aborts_witness:
  "answer (example_env\<lparr>copy_ok := False\<rparr>) = Typed ''n'' \<and> \<not> confirmed ''n'' \<and>
   fst (main parse_release example_args (example_env\<lparr>copy_ok := False\<rparr>) (start (Some 42))) = UpdateAborted \<and>
   exit_status UpdateAborted = 1 \<and>
   \<not> fst (backup_existing_install (example_env\<lparr>copy_ok := False\<rparr>) (start (Some 42)))"
  using declined_backup_aborts [OF declined_run, of "''n''"] declined_run
  by (simp add: example_env_def confirmed_def text_defs)

text \<open>
  C8 fails on the code. A run whose download succeeds and whose installation fails exits
  with the downloaded file still on disk, and so does a run whose download fails after
  the temporary file has been created: only the last step of a successful run removes it.
\<close>

theorem artifact_left_after_failure:
  "fst (main parse_release example_args (example_env\<lparr>squashfs_root := None\<rparr>) (start (Some 42)))
     = InstallationFailed \<and>
   artifact (snd (main parse_release example_args (example_env\<lparr>squashfs_root := None\<rparr>)
     (start (Some 42)))) \<and>
   fst (main parse_release example_args (example_env\<lparr>download := FailedWithFile\<rparr>) (start (Some 42)))
     = DownloadFailed \<and>
   artifact (snd (main parse_release example_args (example_env\<lparr>download := FailedWithFile\<rparr>)
     (start (Some 42))))"
  by (simp add: no_payload_run) (simp add: run_defs example_defs)

text \<open>
  C9 fails on the code. When the directory of the desktop file may not be searched, the
  test \<open>is_file()\<close>, which stands before the \<open>try\<close>, raises \<open>PermissionError\<close>: the
  function raises instead of returning the absent version, and the run ends with an
  unhandled exception and status 1. A file that cannot be decoded makes the function
  raise as well.
\<close>

theorem unsearchable_directory_is_fatal:
  "get_installed_version (StatRaises PermissionError) = Inl PermissionError \<and>
   fst (main parse_release example_args (example_env\<lparr>desktop := StatRaises PermissionError\<rparr>)
          (start (Some 42))) = Unhandled PermissionError \<and>
   exit_status (Unhandled PermissionError) = 1 \<and>
   get_installed_version (ReadRaises UnicodeDecodeError) = Inl UnicodeDecodeError"
  by (simp add: get_installed_version_def caught_by_reader_def main_def check_dependencies_def
      dependencies_def example_env_def exit_status_def Let_def)

text \<open>
  C10. In a forced check-only run where the installed and the latest text are present
  and parse to the same version, the comparison alone would find the installation up to
  date, but the run goes on to the report and prints "Update available" with the
  installed text on the left and the latest text on the right.
\<close>

theorem forced_check_reports_equal_versions:
  assumes "check a" and "force a"
      and "fst (check_dependencies env (start d)) = Inr True" and "sudo_ok env"
      and "get_installed_version (desktop env) = Inr (Some i)" and "i \<noteq> []"
      and "api env = Inr url" and "extract_version url = l" and "l \<noteq> ''Unknown''"
      and "parse i = Inr v" and "parse l = Inr v"
  shows "already_up_to_date parse (Some i) l False = Inr True \<and>
         fst (main parse a env (start d)) = Checked \<and>
         printed (events (snd (main parse a env (start d)))) = [UpdateAvailable i l] \<and>
         install_dir (snd (main parse a env (start d))) = d"
  unfolding main_after_prelude [OF assms(3,4,5,7)]
  using assms(1,2,6,8,9,10,11)
  by (simp add: already_up_to_date_def check_report_def)

theorem forced_check_reports_equal_versions_witness:
  "check (example_args\<lparr>check := True, force := True\<rparr>) \<and>
   force (example_args\<lparr>check := True, force := True\<rparr>) \<and>
   parse_release ''0.42.0'' = Inr [0, 42] \<and>
   already_up_to_date parse_release (Some ''0.42.0'') ''0.42.0'' False = Inr True \<and>
   fst (main parse_release (example_args\<lparr>check := True, force := True\<rparr>)
          (example_env\<lparr>api := Inr same_version_url\<rparr>) (start (Some 42))) = Checked \<and>
   printed (events (snd (main parse_release (example_args\<lparr>check := True, force := True\<rparr>)
          (example_env\<lparr>api := Inr same_version_url\<rparr>) (start (Some 42)))))
     = [UpdateAvailable ''0.42.0'' ''0.42.0'']"
  using forced_check_reports_equal_versions [of "example_args\<lparr>check := True, force := True\<rparr>"
      "example_env\<lparr>api := Inr same_version_url\<rparr>" "Some 42" "''0.42.0''" same_version_url
      "''0.42.0''" parse_release "[0, 42]"]
  by (simp add: example_defs check_dependencies_def dependencies_def)

end
